theory Spec2Isabelle
  imports Main "HOL-Library.Log_Nat" "HOL-Library.Multiset"
begin

section \<open>Python values the script computes with\<close>

text \<open>
  The script \<^verbatim>\<open>resize_compress.py\<close> is embedded function by function. Byte strings and
  text are both \<open>string\<close>. An exception is the value \<open>Exception msg\<close>, where \<open>msg\<close> is
  what \<^verbatim>\<open>str(e)\<close> gives; every exception of the model is an instance of Python's
  \<^verbatim>\<open>Exception\<close>, which is what the script's handlers catch (an asynchronous
  \<^verbatim>\<open>KeyboardInterrupt\<close> is outside the model).
\<close>

type_synonym bytes = string

datatype exn = Exception (message: string)

subsection \<open>Floats\<close>

text \<open>
  Line 70 divides two Python integers with \<^verbatim>\<open>/\<close> and line 72 multiplies an integer
  by the quotient: both results are IEEE 754 binary64 numbers, rounded to nearest, ties
  to even. A finite float is modelled as the rational it denotes. \<open>pow2 e\<close> is the
  power of two with exponent \<open>e\<close>; \<open>binade x\<close> is the exponent \<open>k\<close> with
  \<open>pow2 k \<le> \<bar>x\<bar> < pow2 (k + 1)\<close>; \<open>fl x\<close> rounds \<open>x\<close> to 53 significant bits, or to a
  multiple of \<open>pow2 (- 1074)\<close> in the subnormal range, with the exponent unbounded above:
  a result of magnitude \<open>2 ^ 1024\<close> or more is an overflow, which the operations below
  turn into what Python does there.
\<close>

definition pow2 :: "int \<Rightarrow> rat" where
  "pow2 e = (if 0 \<le> e then 2 ^ nat e else 1 / 2 ^ nat (- e))"

definition binade :: "rat \<Rightarrow> int" where
  "binade x =
     (let (p, q) = quotient_of \<bar>x\<bar>; k = bitlen p - bitlen q
      in if pow2 k \<le> \<bar>x\<bar> then k else k - 1)"

definition round_half_even :: "rat \<Rightarrow> int" where
  "round_half_even y =
     (let f = \<lfloor>y\<rfloor>; r = y - of_int f
      in if r < 1 / 2 then f else if 1 / 2 < r then f + 1 else if even f then f else f + 1)"

definition fl :: "rat \<Rightarrow> rat" where
  "fl x = (if x = 0 then 0
           else let e = max (binade x - 52) (- 1074)
                in of_int (round_half_even (x / pow2 e)) * pow2 e)"

definition overflows :: "rat \<Rightarrow> bool" where
  "overflows x \<longleftrightarrow> 2 ^ 1024 \<le> \<bar>x\<bar>"

text \<open>\<^verbatim>\<open>a / b\<close> on two Python integers: the exact quotient, correctly rounded.\<close>

definition true_div :: "int \<Rightarrow> int \<Rightarrow> exn + rat" where
  "true_div a b =
     (if b = 0 then Inl (Exception ''division by zero'')
      else let q = fl (of_int a / of_int b)
           in if overflows q then Inl (Exception ''integer division result too large for a float'')
              else Inr q)"

text \<open>
  \<^verbatim>\<open>int(n * x)\<close> for an integer \<open>n\<close> and a float \<open>x\<close>: \<open>n\<close> is converted to a float, the
  product is rounded, and \<^verbatim>\<open>int\<close> truncates towards zero. A product that overflows is
  the float infinity, which \<^verbatim>\<open>int\<close> refuses.
\<close>

definition trunc :: "rat \<Rightarrow> int" where
  "trunc x = (if 0 \<le> x then \<lfloor>x\<rfloor> else \<lceil>x\<rceil>)"

definition int_of_product :: "int \<Rightarrow> rat \<Rightarrow> exn + int" where
  "int_of_product n x =
     (let nf = fl (of_int n)
      in if overflows nf then Inl (Exception ''int too large to convert to float'')
         else let p = fl (nf * x)
              in if overflows p then Inl (Exception ''cannot convert float infinity to integer'')
                 else Inr (trunc p))"

subsection \<open>Strings\<close>

text \<open>
  \<^verbatim>\<open>str.lower\<close> on the ASCII letters (no other character is lowered to a letter
  of the extensions that \<^verbatim>\<open>main\<close> compares with, so for that comparison the rest may
  stay as it is); \<^verbatim>\<open>str.rfind\<close> of one character, \<open>-1\<close> when it does not occur;
  \<^verbatim>\<open>str.startswith\<close>; \<^verbatim>\<open>str(n)\<close> for a natural number.
\<close>

definition lower_char :: "char \<Rightarrow> char" where
  "lower_char c =
     (let n = (of_char c :: nat) in if 65 \<le> n \<and> n \<le> 90 then char_of (n + 32) else c)"

definition lower :: "string \<Rightarrow> string" where
  "lower s = map lower_char s"

fun rfind :: "char \<Rightarrow> string \<Rightarrow> int" where
  "rfind c [] = - 1"
| "rfind c (x # xs) =
     (let r = rfind c xs in if 0 \<le> r then r + 1 else if x = c then 0 else - 1)"

definition startswith :: "string \<Rightarrow> string \<Rightarrow> bool" where
  "startswith s pre \<longleftrightarrow> take (length pre) s = pre"

fun str_nat :: "nat \<Rightarrow> string" where
  "str_nat n =
     (if n < 10 then [char_of (48 + n)] else str_nat (n div 10) @ [char_of (48 + n mod 10)])"

declare str_nat.simps [simp del]

definition backslash :: char where
  "backslash = CHR 0x5C"

section \<open>Paths\<close>

text \<open>
  A \<^verbatim>\<open>pathlib.Path\<close> is its drive, its root and the components below them, as pathlib
  keeps it. \<open>str_path\<close> is \<^verbatim>\<open>str(path)\<close> for a path with a drive or a root (the string
  of the resolved input directory is the only one the script takes); the separator is
  \<open>sep\<close>, a backslash on Windows and a slash elsewhere. \<open>joinpath p c\<close> is \<^verbatim>\<open>p / c\<close> for
  one plain component \<open>c\<close>. \<open>suffix\<close> and \<open>stem\<close> split the name at its last dot,
  provided that dot is neither the first nor the last character.
\<close>

record path =
  drive :: string
  root_part :: string
  tail :: "string list"

definition name :: "path \<Rightarrow> string" where
  "name p = (if tail p = [] then [] else last (tail p))"

definition parent :: "path \<Rightarrow> path" where
  "parent p = p\<lparr>tail := butlast (tail p)\<rparr>"

definition joinpath :: "path \<Rightarrow> string \<Rightarrow> path" where
  "joinpath p c = p\<lparr>tail := tail p @ [c]\<rparr>"

fun join :: "string \<Rightarrow> string list \<Rightarrow> string" where
  "join s [] = []"
| "join s [x] = x"
| "join s (x # y # ys) = x @ s @ join s (y # ys)"

definition str_path :: "string \<Rightarrow> path \<Rightarrow> string" where
  "str_path s p = drive p @ root_part p @ join s (tail p)"

definition suffix :: "path \<Rightarrow> string" where
  "suffix p =
     (let n = name p; i = rfind CHR ''.'' n
      in if 0 < i \<and> i < int (length n) - 1 then drop (nat i) n else [])"

definition stem :: "path \<Rightarrow> string" where
  "stem p =
     (let n = name p; i = rfind CHR ''.'' n
      in if 0 < i \<and> i < int (length n) - 1 then take (nat i) n else n)"

section \<open>Images and the environment\<close>

text \<open>
  An image object carries its \<^verbatim>\<open>info\<close> dictionary, its mode, its size and its pixel
  data. The keyword arguments of \<^verbatim>\<open>img.save\<close> are a record; the two optional keys are
  options.
\<close>

record image =
  img_info :: "string \<rightharpoonup> bytes"
  img_mode :: string
  img_size :: "int \<times> int"
  pixels :: "nat list"

record save_kwargs =
  format :: string
  quality :: int
  optimize :: bool
  exif :: "bytes option"
  icc_profile :: "bytes option"

text \<open>
  The imaging library, the file system and the platform are parameters: every call the
  script makes into them is a field of \<open>env\<close>, and every theorem holds for each
  environment it does not restrict. \<open>'w\<close> is the state of the file system. A call that
  can raise returns \<open>Inl e\<close> (or \<open>Some e\<close> beside the state it left behind). The calls
  that write take the state and return the new one.
  \<^item> \<open>image_open\<close>, \<open>exif_transpose\<close>, \<open>convert\<close>, \<open>resize\<close>, \<open>save\<close>: Pillow's
    \<^verbatim>\<open>Image.open\<close>, \<^verbatim>\<open>ImageOps.exif_transpose\<close>, \<^verbatim>\<open>convert\<close>, \<^verbatim>\<open>resize\<close> with the
    Lanczos filter, \<^verbatim>\<open>save\<close>;
  \<^item> \<open>mkdir\<close>: \<^verbatim>\<open>Path.mkdir(parents=True, exist_ok=True)\<close>;
  \<^item> \<open>path_exists\<close>, \<open>is_dir\<close>, \<open>is_file\<close>, \<open>iterdir\<close>: the queries of \<^verbatim>\<open>main\<close>,
    \<^verbatim>\<open>Path.exists\<close>, \<^verbatim>\<open>Path.is_dir\<close>, \<^verbatim>\<open>Path.is_file\<close> and \<^verbatim>\<open>Path.iterdir\<close>. Each
    of them can raise: pathlib answers \<^verbatim>\<open>False\<close> for a path that is missing, and lets
    every other error of the operating system through (a \<^verbatim>\<open>PermissionError\<close> for a
    folder without search permission, for one);
  \<^item> \<open>ProcessPoolExecutor\<close>: the constructor called with \<^verbatim>\<open>max_workers=n\<close>, \<open>Some e\<close>
    when it raises (a \<^verbatim>\<open>ValueError\<close> for more than 61 workers on Windows, for one);
  \<^item> \<open>GetDriveTypeW\<close>: \<^verbatim>\<open>ctypes.windll.kernel32.GetDriveTypeW\<close>, which raises where
    there is no \<^verbatim>\<open>windll\<close>;
  \<^item> \<open>cpu_count\<close>: \<^verbatim>\<open>os.cpu_count()\<close>, \<open>None\<close> when undetermined;
  \<^item> \<open>completion\<close>: the order in which the futures of a run complete (see \<open>arrange\<close>);
  \<^item> \<open>elapsed\<close>: the elapsed time as \<^verbatim>\<open>{elapsed:.2f}\<close> prints it; \<open>sep\<close>: the path
    separator.
\<close>

record 'w env =
  image_open :: "path \<Rightarrow> 'w \<Rightarrow> exn + image"
  exif_transpose :: "image \<Rightarrow> exn + image"
  convert :: "image \<Rightarrow> string \<Rightarrow> exn + image"
  resize :: "image \<Rightarrow> int \<times> int \<Rightarrow> exn + image"
  mkdir :: "path \<Rightarrow> 'w \<Rightarrow> exn option \<times> 'w"
  save :: "image \<Rightarrow> path \<Rightarrow> save_kwargs \<Rightarrow> 'w \<Rightarrow> exn option \<times> 'w"
  path_exists :: "path \<Rightarrow> 'w \<Rightarrow> exn + bool"
  is_dir :: "path \<Rightarrow> 'w \<Rightarrow> exn + bool"
  is_file :: "path \<Rightarrow> 'w \<Rightarrow> exn + bool"
  iterdir :: "path \<Rightarrow> 'w \<Rightarrow> exn + path list"
  ProcessPoolExecutor :: "nat \<Rightarrow> exn option"
  GetDriveTypeW :: "string \<Rightarrow> exn + int"
  cpu_count :: "nat option"
  completion :: "nat list"
  elapsed :: string
  sep :: string

section \<open>is\_network\_path (lines 35 to 54)\<close>

text \<open>
  The whole body is inside \<^verbatim>\<open>try\<close>; the handler returns \<^verbatim>\<open>False\<close>. The prefix tested
  is two backslashes, and the drive handed to the probe is followed by one.
\<close>

definition DRIVE_REMOTE :: int where
  "DRIVE_REMOTE = 4"

definition is_network_path :: "'w env \<Rightarrow> path \<Rightarrow> bool" where
  "is_network_path env p =
     (let s = str_path (sep env) p
      in if startswith s [backslash, backslash] then True
         else let d = (if drive p = [] \<and> 2 \<le> length s \<and> s ! 1 = CHR '':'' then take 2 s
                       else drive p)
              in if d = [] then False
                 else (case GetDriveTypeW env (d @ [backslash]) of
                         Inl e \<Rightarrow> False
                       | Inr t \<Rightarrow> t = DRIVE_REMOTE))"

section \<open>process\_image (lines 57 to 83)\<close>

text \<open>
  The body of the \<^verbatim>\<open>try\<close> in three parts. \<open>load\<close> is lines 60 to 67: open, read the two
  metadata entries of \<^verbatim>\<open>img.info\<close>, transpose, convert the modes with alpha or a
  palette. \<open>fit\<close> is lines 69 to 72: \<open>target_size\<close> is their arithmetic, the size to
  ask \<^verbatim>\<open>resize\<close> for or \<open>None\<close> when the ratio is not below one. \<open>store\<close> is lines
  74 to 80, with the keyword arguments of lines 75 to 79 as \<open>save_args\<close>.
  \<open>process_image\<close> runs them in order and is the \<^verbatim>\<open>try\<close>/\<^verbatim>\<open>except\<close> with the
  two \<^verbatim>\<open>return\<close> lines.
\<close>

definition load :: "'w env \<Rightarrow> path \<Rightarrow> 'w \<Rightarrow> exn + (image \<times> bytes \<times> bytes option)" where
  "load env input_path w =
     (case image_open env input_path w of
        Inl e \<Rightarrow> Inl e
      | Inr img \<Rightarrow>
          let exif_data = (case img_info img ''exif'' of None \<Rightarrow> [] | Some b \<Rightarrow> b);
              icc = img_info img ''icc_profile''
          in (case exif_transpose env img of
                Inl e \<Rightarrow> Inl e
              | Inr img1 \<Rightarrow>
                  if img_mode img1 \<in> {''RGBA'', ''LA'', ''P''}
                  then (case convert env img1 ''RGB'' of
                          Inl e \<Rightarrow> Inl e
                        | Inr img2 \<Rightarrow> Inr (img2, exif_data, icc))
                  else Inr (img1, exif_data, icc)))"

definition target_size :: "int \<Rightarrow> int \<times> int \<Rightarrow> exn + (int \<times> int) option" where
  "target_size max_side sz =
     (let (w, h) = sz
      in case true_div max_side (max w h) of
           Inl e \<Rightarrow> Inl e
         | Inr ratio \<Rightarrow>
             if ratio < 1
             then (case int_of_product w ratio of
                     Inl e \<Rightarrow> Inl e
                   | Inr w' \<Rightarrow>
                       (case int_of_product h ratio of
                          Inl e \<Rightarrow> Inl e
                        | Inr h' \<Rightarrow> Inr (Some (w', h'))))
             else Inr None)"

definition fit :: "'w env \<Rightarrow> int \<Rightarrow> image \<Rightarrow> exn + image" where
  "fit env max_side img =
     (case target_size max_side (img_size img) of
        Inl e \<Rightarrow> Inl e
      | Inr None \<Rightarrow> Inr img
      | Inr (Some sz) \<Rightarrow> resize env img sz)"

definition save_args :: "int \<Rightarrow> bytes \<Rightarrow> bytes option \<Rightarrow> save_kwargs" where
  "save_args jpeg_quality exif_data icc =
     \<lparr>format = ''JPEG'', quality = jpeg_quality, optimize = True,
      exif = (if exif_data \<noteq> [] then Some exif_data else None),
      icc_profile = (case icc of None \<Rightarrow> None | Some b \<Rightarrow> if b \<noteq> [] then Some b else None)\<rparr>"

definition store :: "'w env \<Rightarrow> image \<Rightarrow> path \<Rightarrow> save_kwargs \<Rightarrow> 'w \<Rightarrow> exn option \<times> 'w" where
  "store env img output_path kw w =
     (case mkdir env (parent output_path) w of
        (Some e, w1) \<Rightarrow> (Some e, w1)
      | (None, w1) \<Rightarrow> save env img output_path kw w1)"

definition ok_line :: "path \<Rightarrow> path \<Rightarrow> string" where
  "ok_line input_path output_path = ''[OK] '' @ name input_path @ '' -> '' @ name output_path"

definition err_line :: "path \<Rightarrow> exn \<Rightarrow> string" where
  "err_line input_path e = ''[ERR] '' @ name input_path @ '': '' @ message e"

definition process_image :: "'w env \<Rightarrow> path \<Rightarrow> path \<Rightarrow> int \<Rightarrow> int \<Rightarrow> 'w \<Rightarrow> string \<times> 'w" where
  "process_image env input_path output_path max_side jpeg_quality w =
     (case load env input_path w of
        Inl e \<Rightarrow> (err_line input_path e, w)
      | Inr (img, exif_data, icc) \<Rightarrow>
          (case fit env max_side img of
             Inl e \<Rightarrow> (err_line input_path e, w)
           | Inr img' \<Rightarrow>
               (case store env img' output_path (save_args jpeg_quality exif_data icc) w of
                  (Some e, w') \<Rightarrow> (err_line input_path e, w')
                | (None, w') \<Rightarrow> (ok_line input_path output_path, w'))))"

section \<open>main (lines 86 to 127)\<close>

text \<open>
  \<^verbatim>\<open>main\<close> ends in one of three ways: \<^verbatim>\<open>sys.exit(n)\<close>, falling off its end, or an
  exception nothing catches; the interpreter's exit status is \<open>n\<close>, 0 and 1.
  \<^verbatim>\<open>main\<close> has no \<^verbatim>\<open>try\<close>: whatever one of its own calls raises ends the run. The
  calls that are followed here are the four queries of the file system and the
  constructor of the pool. The path is taken as \<^verbatim>\<open>resolve\<close> returned it (line 95);
  \<^verbatim>\<open>print\<close>, \<^verbatim>\<open>submit\<close> and \<^verbatim>\<open>future.result\<close> are taken to return.
  What a run does is recorded as a list of events: a line printed, a transform started
  and finished on the calling thread, the pool created with its size, a task submitted
  to it, and a future that completed with its result.
\<close>

datatype ending = Exit int | Returned | Uncaught exn

fun exit_status :: "ending \<Rightarrow> int" where
  "exit_status (Exit n) = n"
| "exit_status Returned = 0"
| "exit_status (Uncaught e) = 1"

datatype event =
    Print string
  | Started path
  | Finished path string
  | Pool nat
  | Submitted path

record 'w outcome =
  status :: ending
  trace :: "event list"
  final :: 'w

definition exts :: "string list" where
  "exts = [''.jpg'', ''.jpeg'', ''.png'', ''.tif'', ''.tiff'', ''.webp'', ''.heic'', ''.heif'', ''.bmp'']"

text \<open>
  The comprehension of line 103 over the children that \<^verbatim>\<open>iterdir\<close> listed, in their
  order. \<^verbatim>\<open>and\<close> evaluates \<^verbatim>\<open>p.is_file()\<close> only for a child whose extension is in
  \<open>exts\<close>; the first call that raises ends the comprehension, and \<^verbatim>\<open>main\<close> with it.
  A child is eligible when both tests answer \<^verbatim>\<open>True\<close>.
\<close>

fun select_files :: "'w env \<Rightarrow> 'w \<Rightarrow> path list \<Rightarrow> exn + path list" where
  "select_files env w [] = Inr []"
| "select_files env w (p # ps) =
     (if lower (suffix p) \<in> set exts
      then (case is_file env p w of
              Inl e \<Rightarrow> Inl e
            | Inr b \<Rightarrow>
                (case select_files env w ps of
                   Inl e \<Rightarrow> Inl e
                 | Inr files \<Rightarrow> Inr (if b then p # files else files)))
      else select_files env w ps)"

definition eligible :: "'w env \<Rightarrow> 'w \<Rightarrow> path \<Rightarrow> bool" where
  "eligible env w p \<longleftrightarrow> lower (suffix p) \<in> set exts \<and> is_file env p w = Inr True"

definition output_for :: "path \<Rightarrow> path \<Rightarrow> path" where
  "output_for output_dir p = joinpath output_dir (stem p @ ''.jpg'')"

text \<open>The loop of lines 113 to 115: one file after the other, each result printed at once.\<close>

fun run_sequential :: "'w env \<Rightarrow> path \<Rightarrow> int \<Rightarrow> int \<Rightarrow> path list \<Rightarrow> 'w \<Rightarrow> event list \<times> 'w" where
  "run_sequential env output_dir max_side jpeg_quality [] w = ([], w)"
| "run_sequential env output_dir max_side jpeg_quality (p # ps) w =
     (let (r, w1) = process_image env p (output_for output_dir p) max_side jpeg_quality w;
          (evs, w2) = run_sequential env output_dir max_side jpeg_quality ps w1
      in (Started p # Finished p r # Print r # evs, w2))"

text \<open>
  Lines 119 to 124. Every task is submitted once, and \<^verbatim>\<open>as_completed\<close> yields every
  future once, in an order the script does not choose. The order is the environment's:
  \<open>arrange ks xs\<close> puts the elements of \<open>xs\<close> in the order that the insertion positions
  \<open>ks\<close> describe, so each value of \<open>completion env\<close> stands for one order and for no
  loss or repetition, and every order is the one of some value (\<open>arrange_complete\<close>
  below). The transforms of the workers are taken to act on the file system
  one at a time, in the order in which they complete; what two workers do to the same
  file at the same moment is not modelled.
\<close>

definition insert_at :: "nat \<Rightarrow> 'a \<Rightarrow> 'a list \<Rightarrow> 'a list" where
  "insert_at k x ys = take k ys @ x # drop k ys"

fun arrange :: "nat list \<Rightarrow> 'a list \<Rightarrow> 'a list" where
  "arrange ks [] = []"
| "arrange [] (x # xs) = x # xs"
| "arrange (k # ks) (x # xs) = insert_at k x (arrange ks xs)"

fun collect :: "'w env \<Rightarrow> int \<Rightarrow> int \<Rightarrow> (path \<times> path) list \<Rightarrow> 'w \<Rightarrow> event list \<times> 'w" where
  "collect env max_side jpeg_quality [] w = ([], w)"
| "collect env max_side jpeg_quality ((inp, out) # ts) w =
     (let (r, w1) = process_image env inp out max_side jpeg_quality w;
          (evs, w2) = collect env max_side jpeg_quality ts w1
      in (Finished inp r # Print r # evs, w2))"

text \<open>Line 117: \<^verbatim>\<open>os.cpu_count() or 1\<close>.\<close>

definition cores :: "'w env \<Rightarrow> nat" where
  "cores env = (case cpu_count env of None \<Rightarrow> 1 | Some n \<Rightarrow> if n = 0 then 1 else n)"

text \<open>
  Lines 119 to 124, once the pool exists: the tasks submitted, and the results as they
  complete.
\<close>

definition run_parallel :: "'w env \<Rightarrow> nat \<Rightarrow> path \<Rightarrow> int \<Rightarrow> int \<Rightarrow> path list \<Rightarrow> 'w \<Rightarrow> event list \<times> 'w" where
  "run_parallel env max_workers output_dir max_side jpeg_quality files w =
     (let tasks = map (\<lambda>p. (p, output_for output_dir p)) files;
          (evs, w') = collect env max_side jpeg_quality (arrange (completion env) tasks) w
      in (Pool max_workers # map (\<lambda>(inp, out). Submitted inp) tasks @ evs, w'))"

text \<open>
  Lines 95 to 127. \<^verbatim>\<open>not input_dir.exists() or not input_dir.is_dir()\<close> asks
  \<^verbatim>\<open>is_dir\<close> only when \<^verbatim>\<open>exists\<close> answered \<^verbatim>\<open>True\<close>. On a local folder the line
  that names the strategy is printed (line 118) before the pool is constructed
  (line 120).
\<close>

definition main :: "'w env \<Rightarrow> path \<Rightarrow> int \<Rightarrow> int \<Rightarrow> 'w \<Rightarrow> 'w outcome" where
  "main env input_dir max_side jpeg_quality w =
     (let not_found =
            \<lparr>status = Exit 1,
             trace = [Print (''Error: input folder not found: '' @ str_path (sep env) input_dir)],
             final = w\<rparr>
      in case path_exists env input_dir w of
           Inl e \<Rightarrow> \<lparr>status = Uncaught e, trace = [], final = w\<rparr>
         | Inr there \<Rightarrow>
      if \<not> there then not_found
      else case is_dir env input_dir w of
           Inl e \<Rightarrow> \<lparr>status = Uncaught e, trace = [], final = w\<rparr>
         | Inr folder \<Rightarrow>
      if \<not> folder then not_found
      else
        let output_dir = joinpath input_dir ''compressed''
        in (case iterdir env input_dir w of
              Inl e \<Rightarrow> \<lparr>status = Uncaught e, trace = [], final = w\<rparr>
            | Inr children \<Rightarrow>
          (case select_files env w children of
              Inl e \<Rightarrow> \<lparr>status = Uncaught e, trace = [], final = w\<rparr>
            | Inr files \<Rightarrow>
                if files = []
                then \<lparr>status = Exit 0,
                      trace = [Print (''No images found in: '' @ str_path (sep env) input_dir)],
                      final = w\<rparr>
                else
                  let smb_mode = is_network_path env input_dir;
                      summary = Print (''Total elapsed time: '' @ elapsed env @ '' seconds'')
                  in if smb_mode
                     then
                       let (evs, w') = run_sequential env output_dir max_side jpeg_quality files w
                       in \<lparr>status = Returned,
                           trace = Print (''Mode: Network path detected. Processing sequentially in: ''
                                          @ str_path (sep env) input_dir) # evs @ [summary],
                           final = w'\<rparr>
                     else
                       let mode = Print (''Mode: Local drive. Processing in parallel with ''
                                         @ str_nat (cores env) @ '' cores in: ''
                                         @ str_path (sep env) input_dir)
                       in (case ProcessPoolExecutor env (cores env) of
                             Some e \<Rightarrow> \<lparr>status = Uncaught e, trace = [mode], final = w\<rparr>
                           | None \<Rightarrow>
                               let (evs, w') = run_parallel env (cores env) output_dir max_side
                                                 jpeg_quality files w
                               in \<lparr>status = Returned, trace = mode # evs @ [summary],
                                   final = w'\<rparr>))))"

text \<open>
  What a run printed, which files it finished, how many transforms are under way, the
  pools it created and the files it submitted to them.
\<close>

fun printed :: "event list \<Rightarrow> string list" where
  "printed [] = []"
| "printed (Print s # evs) = s # printed evs"
| "printed (ev # evs) = printed evs"

fun finished :: "event list \<Rightarrow> path list" where
  "finished [] = []"
| "finished (Finished p r # evs) = p # finished evs"
| "finished (ev # evs) = finished evs"

fun in_flight :: "event list \<Rightarrow> int" where
  "in_flight [] = 0"
| "in_flight (Started p # evs) = in_flight evs + 1"
| "in_flight (Finished p r # evs) = in_flight evs - 1"
| "in_flight (ev # evs) = in_flight evs"

fun pools :: "event list \<Rightarrow> nat list" where
  "pools [] = []"
| "pools (Pool n # evs) = n # pools evs"
| "pools (ev # evs) = pools evs"

fun submitted :: "event list \<Rightarrow> path list" where
  "submitted [] = []"
| "submitted (Submitted p # evs) = p # submitted evs"
| "submitted (ev # evs) = submitted evs"

text \<open>
  The spec's sequential strategy, as a property of a list of events: the files are
  taken in the given order, one is finished before the next is started, and each
  result is printed right after it is produced.
\<close>

fun strictly_sequential :: "path list \<Rightarrow> event list \<Rightarrow> bool" where
  "strictly_sequential [] [] = True"
| "strictly_sequential (p # ps) (Started p1 # Finished p2 r # Print r' # evs) =
     (p1 = p \<and> p2 = p \<and> r' = r \<and> strictly_sequential ps evs)"
| "strictly_sequential ps evs = False"

section \<open>A sample folder\<close>

text \<open>
  One environment on which the definitions are evaluated. The file system is the list
  of its directories and of the files written, each with the image and the keyword
  arguments it was encoded from. The folder \<^verbatim>\<open>C:\photos\<close> holds four files: a large
  photograph with metadata, a text file, a small picture with an alpha channel whose
  name differs from the photograph's in the extension only, and a scan in a mode that
  JPEG cannot store. The library of the sample resizes to the size it is asked for and
  refuses a size below one pixel, creates a directory that is missing, and replaces a
  file that exists.
\<close>

record disk =
  dirs :: "path list"
  written :: "(path \<times> image \<times> save_kwargs) list"

definition photos :: path where
  "photos = \<lparr>drive = ''C:'', root_part = [backslash], tail = [''photos'']\<rparr>"

definition holiday :: image where
  "holiday = \<lparr>img_info = [''exif'' \<mapsto> ''Exif-II*'', ''icc_profile'' \<mapsto> ''sRGB''],
              img_mode = ''RGB'', img_size = (4000, 3000), pixels = [1]\<rparr>"

definition logo :: image where
  "logo = \<lparr>img_info = [''icc_profile'' \<mapsto> []],
           img_mode = ''RGBA'', img_size = (640, 480), pixels = [2]\<rparr>"

definition scan :: image where
  "scan = \<lparr>img_info = Map.empty, img_mode = ''F'', img_size = (800, 600), pixels = [3]\<rparr>"

definition wide :: image where
  "wide = \<lparr>img_info = Map.empty, img_mode = ''RGB'', img_size = (2139, 1000), pixels = [4]\<rparr>"

definition sample_open :: "path \<Rightarrow> disk \<Rightarrow> exn + image" where
  "sample_open p w =
     (if name p = ''holiday.jpg'' then Inr holiday
      else if name p = ''holiday.PNG'' then Inr logo
      else if name p = ''scan.tif'' then Inr scan
      else Inl (Exception ''cannot identify image file''))"

definition sample_resize :: "image \<Rightarrow> int \<times> int \<Rightarrow> exn + image" where
  "sample_resize img sz =
     (if fst sz < 1 \<or> snd sz < 1 then Inl (Exception ''height and width must be > 0'')
      else Inr (img\<lparr>img_size := sz\<rparr>))"

definition sample_mkdir :: "path \<Rightarrow> disk \<Rightarrow> exn option \<times> disk" where
  "sample_mkdir d w = (None, if d \<in> set (dirs w) then w else w\<lparr>dirs := d # dirs w\<rparr>)"

definition sample_save :: "image \<Rightarrow> path \<Rightarrow> save_kwargs \<Rightarrow> disk \<Rightarrow> exn option \<times> disk" where
  "sample_save img p kw w =
     (if img_mode img = ''F'' then (Some (Exception ''cannot write mode F as JPEG''), w)
      else (None, w\<lparr>written := (p, img, kw) # filter (\<lambda>f. fst f \<noteq> p) (written w)\<rparr>))"

definition listing :: "path \<Rightarrow> path list" where
  "listing p = map (joinpath p) [''holiday.jpg'', ''notes.txt'', ''holiday.PNG'', ''scan.tif'']"

definition images :: "path \<Rightarrow> path list" where
  "images p = map (joinpath p) [''holiday.jpg'', ''holiday.PNG'', ''scan.tif'']"

definition sample_env :: "disk env" where
  "sample_env =
     \<lparr>image_open = sample_open,
      exif_transpose = Inr,
      convert = (\<lambda>img m. Inr (img\<lparr>img_mode := m\<rparr>)),
      resize = sample_resize,
      mkdir = sample_mkdir,
      save = sample_save,
      path_exists = (\<lambda>p w. Inr (p \<in> set (dirs w))),
      is_dir = (\<lambda>p w. Inr (p \<in> set (dirs w))),
      is_file = (\<lambda>p w. Inr (p \<notin> set (dirs w))),
      iterdir = (\<lambda>p w. Inr (listing p)),
      ProcessPoolExecutor =
        (\<lambda>n. if 61 < n then Some (Exception ''max_workers must be <= 61'') else None),
      GetDriveTypeW = (\<lambda>d. Inr 3),
      cpu_count = Some 4,
      completion = [1],
      elapsed = ''0.42'',
      sep = [backslash]\<rparr>"

definition compressed :: path where
  "compressed = joinpath photos ''compressed''"

definition stored :: "image \<Rightarrow> bytes option \<Rightarrow> bytes option \<Rightarrow> path \<times> image \<times> save_kwargs" where
  "stored img e i =
     (joinpath compressed ''holiday.jpg'', img,
      \<lparr>format = ''JPEG'', quality = 65, optimize = True, exif = e, icc_profile = i\<rparr>)"

definition disk0 :: disk where
  "disk0 = \<lparr>dirs = [photos], written = []\<rparr>"

text \<open>
  Other places and platforms: a UNC share, a mapped drive that the probe reports as
  remote (and a disk on which it is the folder), a POSIX home directory on a platform
  without \<^verbatim>\<open>windll\<close>, a folder that holds the text file only, a folder that
  exists but cannot be listed, a folder that is listed but whose entries cannot be
  examined, a machine with more processors than a pool may have workers, and a folder
  below a directory that cannot be searched.
\<close>

definition unc_share :: path where
  "unc_share = \<lparr>drive = [backslash, backslash] @ ''nas'' @ [backslash] @ ''media'',
                 root_part = [backslash], tail = [''photos'']\<rparr>"

definition mapped :: path where
  "mapped = \<lparr>drive = ''Z:'', root_part = [backslash], tail = [''photos'']\<rparr>"

definition home :: path where
  "home = \<lparr>drive = [], root_part = ''/'', tail = [''home'', ''photos'']\<rparr>"

definition remote_env :: "disk env" where
  "remote_env = sample_env\<lparr>GetDriveTypeW := (\<lambda>d. if d = ''Z:'' @ [backslash] then Inr 4 else Inr 3)\<rparr>"

definition posix_env :: "disk env" where
  "posix_env = sample_env\<lparr>GetDriveTypeW := (\<lambda>d. Inl (Exception ''module ctypes has no attribute windll'')),
                           sep := ''/''\<rparr>"

definition share_disk :: disk where
  "share_disk = \<lparr>dirs = [mapped], written = []\<rparr>"

definition text_only_env :: "disk env" where
  "text_only_env = sample_env\<lparr>iterdir := (\<lambda>p w. Inr [joinpath p ''notes.txt''])\<rparr>"

definition locked_env :: "disk env" where
  "locked_env = sample_env\<lparr>iterdir := (\<lambda>p w. Inl (Exception ''[WinError 5] Access is denied''))\<rparr>"

definition sealed_env :: "disk env" where
  "sealed_env = sample_env\<lparr>is_file := (\<lambda>p w. Inl (Exception ''[Errno 13] Permission denied''))\<rparr>"

definition sealed_text_env :: "disk env" where
  "sealed_text_env = text_only_env\<lparr>is_file := (\<lambda>p w. Inl (Exception ''[Errno 13] Permission denied''))\<rparr>"

definition crowded_env :: "disk env" where
  "crowded_env = sample_env\<lparr>cpu_count := Some 64\<rparr>"

definition hidden_env :: "disk env" where
  "hidden_env = sample_env\<lparr>path_exists := (\<lambda>p w. Inl (Exception ''[Errno 13] Permission denied''))\<rparr>"

section \<open>Rounding\<close>

text \<open>
  The facts about \<open>fl\<close> that the claims need: the exponent \<open>binade\<close> computes is the
  right one, rounding does not cross an integer that is itself a float, a quotient of
  at least one stays at least one, and a normal number moves by at most a part in
  \<open>2 ^ 53\<close>.
\<close>

lemma pow2_powi: "pow2 e = power_int 2 e"
  by (simp add: pow2_def power_int_def power_inverse field_simps)

lemma pow2_pos: "0 < pow2 e"
  by (simp add: pow2_powi zero_less_power_int)

lemma pow2_add: "pow2 (a + b) = pow2 a * pow2 b"
  by (simp add: pow2_powi power_int_add)

lemma pow2_diff: "pow2 (a - b) = pow2 a / pow2 b"
  by (simp add: pow2_powi power_int_diff)

lemma pow2_mono: "a \<le> b \<Longrightarrow> pow2 a \<le> pow2 b"
  by (simp add: pow2_powi power_int_increasing)

lemma pow2_strict_mono: "a < b \<Longrightarrow> pow2 a < pow2 b"
  by (simp add: pow2_powi power_int_strict_increasing)

lemma pow2_nat: "0 \<le> e \<Longrightarrow> pow2 e = of_int (2 ^ nat e)"
  by (simp add: pow2_def)

lemma bitlen_rat_bounds:
  assumes "0 < p"
  shows "pow2 (bitlen p - 1) \<le> of_int p" and "of_int p < pow2 (bitlen p)"
proof -
  have b: "2 ^ nat (bitlen p - 1) \<le> p" "p < 2 ^ nat (bitlen p)"
    using bitlen_bounds [OF assms] by simp_all
  have b1: "1 \<le> bitlen p"
    using assms bitlen_eq_zero_iff [of p] bitlen_nonneg [of p] by simp
  have "pow2 (bitlen p - 1) = of_int (2 ^ nat (bitlen p - 1))"
    using b1 by (simp add: pow2_nat)
  also have "\<dots> \<le> of_int p"
    using b(1) by (simp only: of_int_le_iff)
  finally show "pow2 (bitlen p - 1) \<le> of_int p" .
  have "(of_int p :: rat) < of_int (2 ^ nat (bitlen p))"
    using b(2) by (simp only: of_int_less_iff)
  also have "\<dots> = pow2 (bitlen p)"
    using b1 by (simp add: pow2_nat)
  finally show "of_int p < pow2 (bitlen p)" .
qed

lemma binade_bounds:
  assumes "x \<noteq> 0"
  shows "pow2 (binade x) \<le> \<bar>x\<bar> \<and> \<bar>x\<bar> < pow2 (binade x + 1)"
proof -
  obtain p q where pq: "quotient_of \<bar>x\<bar> = (p, q)" by force
  have q: "0 < q" using pq by (rule quotient_of_denom_pos)
  have x: "\<bar>x\<bar> = of_int p / of_int q" using pq by (rule quotient_of_div)
  have p: "0 < p"
  proof (rule ccontr)
    assume "\<not> 0 < p"
    then have "of_int p / (of_int q :: rat) \<le> 0" using q by (simp add: divide_le_0_iff)
    with x assms show False by simp
  qed
  define k where "k = bitlen p - bitlen q"
  note P = bitlen_rat_bounds [OF p] and Q = bitlen_rat_bounds [OF q]
  have qpos: "(0::rat) < of_int q" using q by simp
  have "\<bar>x\<bar> < pow2 (bitlen p) / pow2 (bitlen q - 1)"
    unfolding x using P(2) Q(1) qpos p pow2_pos [of "bitlen q - 1"]
    by (intro frac_less) (simp_all add: less_imp_le)
  then have upper: "\<bar>x\<bar> < pow2 (k + 1)"
    by (simp add: k_def pow2_diff [symmetric] algebra_simps)
  have "pow2 (bitlen p - 1) / pow2 (bitlen q) \<le> \<bar>x\<bar>"
    unfolding x using P(1) Q(2) qpos p pow2_pos [of "bitlen p - 1"]
    by (intro frac_le) (simp_all add: less_imp_le)
  then have lower: "pow2 (k - 1) \<le> \<bar>x\<bar>"
    by (simp add: k_def pow2_diff [symmetric] algebra_simps)
  have b: "binade x = (if pow2 k \<le> \<bar>x\<bar> then k else k - 1)"
    by (simp add: binade_def pq k_def Let_def)
  show ?thesis
    using upper lower by (simp add: b)
qed

lemma pow2_52: "pow2 52 = 2 ^ 52"
  by (simp add: pow2_def)

lemma pow2_split: "pow2 b = 2 ^ 52 * pow2 (b - 52)"
proof -
  have "pow2 b = pow2 (52 + (b - 52))" by simp
  also have "\<dots> = pow2 52 * pow2 (b - 52)" by (rule pow2_add)
  finally show ?thesis by (simp only: pow2_52)
qed

lemma round_half_even_ge:
  assumes "of_int n \<le> y"
  shows "n \<le> round_half_even y"
proof -
  have "n \<le> \<lfloor>y\<rfloor>" using assms by (simp add: le_floor_iff)
  then show ?thesis by (simp add: round_half_even_def Let_def)
qed

lemma round_half_even_le:
  assumes y: "y \<le> of_int n"
  shows "round_half_even y \<le> n"
proof -
  have f: "\<lfloor>y\<rfloor> \<le> n" using y by (simp add: floor_le_iff) 
  show ?thesis
  proof (cases "\<lfloor>y\<rfloor> = n")
    case True
    then have "of_int n \<le> y" by (metis of_int_floor_le)
    with y have "y = of_int n" by simp
    then show ?thesis by (simp add: round_half_even_def)
  next
    case False
    with f have "\<lfloor>y\<rfloor> + 1 \<le> n" by simp
    then show ?thesis by (simp add: round_half_even_def Let_def)
  qed
qed

lemma round_half_even_of_int: "round_half_even (of_int n) = n"
  by (simp add: round_half_even_def)

lemma round_half_even_upper: "of_int (round_half_even y) \<le> y + 1"
proof -
  have "round_half_even y \<le> \<lfloor>y\<rfloor> + 1" by (simp add: round_half_even_def Let_def)
  then have "(of_int (round_half_even y) :: rat) \<le> of_int (\<lfloor>y\<rfloor> + 1)"
    by (simp only: of_int_le_iff)
  also have "\<dots> \<le> y + 1" by simp
  finally show ?thesis .
qed

lemma binade_nonneg:
  assumes "1 \<le> x"
  shows "0 \<le> binade x" and "pow2 (binade x) \<le> x"
proof -
  have x0: "x \<noteq> 0" and ax: "\<bar>x\<bar> = x" using assms by simp_all
  have lo: "pow2 (binade x) \<le> x" and hi: "x < pow2 (binade x + 1)"
    using binade_bounds [OF x0] by (simp_all add: ax)
  show "pow2 (binade x) \<le> x" by (rule lo)
  have "pow2 0 < pow2 (binade x + 1)" using assms hi by (simp add: pow2_def)
  then show "0 \<le> binade x"
    using pow2_mono [of "binade x + 1" 0] by (cases "0 \<le> binade x") simp_all
qed

lemma fl_normal:
  assumes "1 \<le> x"
  shows "fl x = of_int (round_half_even (x / pow2 (binade x - 52))) * pow2 (binade x - 52)"
proof -
  have "max (binade x - 52) (- 1074) = binade x - 52"
    using binade_nonneg(1) [OF assms] by simp
  then show ?thesis using assms by (simp add: fl_def Let_def)
qed

lemma fl_ge_one:
  assumes "1 \<le> x"
  shows "1 \<le> fl x"
proof -
  define b where "b = binade x"
  have b0: "0 \<le> b" and lo: "pow2 b \<le> x"
    using binade_nonneg [OF assms] by (simp_all add: b_def)
  have "of_int (2 ^ 52) * pow2 (b - 52) \<le> x"
    using lo pow2_split [of b] by simp
  then have "of_int (2 ^ 52) \<le> x / pow2 (b - 52)"
    using pow2_pos [of "b - 52"] by (simp add: pos_le_divide_eq)
  then have "2 ^ 52 \<le> round_half_even (x / pow2 (b - 52))"
    by (rule round_half_even_ge)
  then have "(of_int (2 ^ 52) :: rat) \<le> of_int (round_half_even (x / pow2 (b - 52)))"
    by (simp only: of_int_le_iff)
  then have "of_int (2 ^ 52) * pow2 (b - 52) \<le> fl x"
    using pow2_pos [of "b - 52"] by (simp add: fl_normal [OF assms] b_def)
  then have "pow2 b \<le> fl x" using pow2_split [of b] by simp
  moreover have "1 \<le> pow2 b" using pow2_mono [OF b0] by (simp add: pow2_def)
  ultimately show ?thesis by simp
qed

lemma fl_le_twice:
  assumes "1 \<le> x"
  shows "fl x \<le> 2 * x"
proof -
  define b where "b = binade x"
  have b0: "0 \<le> b" and lo: "pow2 b \<le> x"
    using binade_nonneg [OF assms] by (simp_all add: b_def)
  have "fl x = of_int (round_half_even (x / pow2 (b - 52))) * pow2 (b - 52)"
    by (simp add: fl_normal [OF assms] b_def)
  also have "\<dots> \<le> (x / pow2 (b - 52) + 1) * pow2 (b - 52)"
    using round_half_even_upper [of "x / pow2 (b - 52)"] pow2_pos [of "b - 52"]
    by (simp only: mult_right_mono less_imp_le)
  also have "\<dots> = x + pow2 (b - 52)"
    using pow2_pos [of "b - 52"] by (simp add: field_simps)
  also have "pow2 (b - 52) \<le> pow2 b" by (rule pow2_mono) simp
  finally show ?thesis using lo by simp
qed

lemma fl_nonpos:
  assumes "x \<le> 0"
  shows "fl x \<le> 0"
proof (cases "x = 0")
  case True
  then show ?thesis by (simp add: fl_def)
next
  case False
  define e where "e = max (binade x - 52) (- 1074)"
  have "x / pow2 e \<le> of_int 0"
    using assms pow2_pos [of e] by (simp add: divide_le_0_iff)
  then have "round_half_even (x / pow2 e) \<le> 0" by (rule round_half_even_le)
  then have "(of_int (round_half_even (x / pow2 e)) :: rat) \<le> 0" by simp
  then have "of_int (round_half_even (x / pow2 e)) * pow2 e \<le> 0"
    using pow2_pos [of e] by (simp add: mult_le_0_iff)
  then show ?thesis using False by (simp add: fl_def Let_def e_def)
qed

lemma fl_between_ints:
  assumes "0 < x" and "x < 2 ^ 53"
  shows "x \<le> of_int n \<Longrightarrow> fl x \<le> of_int n" and "of_int n \<le> x \<Longrightarrow> of_int n \<le> fl x"
proof -
  define e where "e = max (binade x - 52) (- 1074)"
  define k where "k = nat (- e)"
  have x0: "x \<noteq> 0" and ax: "\<bar>x\<bar> = x" using assms by simp_all
  have "pow2 (binade x) \<le> x" using binade_bounds [OF x0] by (simp add: ax)
  also have "x < pow2 53" using assms(2) by (simp add: pow2_def)
  finally have "binade x < 53"
    using pow2_mono [of 53 "binade x"] by (cases "binade x < 53") simp_all
  then have e0: "e \<le> 0" by (simp add: e_def)
  then have pe: "pow2 e = 1 / 2 ^ k"
    by (cases "e = 0") (simp_all add: pow2_def k_def)
  have flx: "fl x = of_int (round_half_even (x * 2 ^ k)) / 2 ^ k"
    using x0 by (simp add: fl_def Let_def e_def [symmetric] pe)
  {
    assume "x \<le> of_int n"
    then have "x * 2 ^ k \<le> of_int (n * 2 ^ k)" by simp
    then have "round_half_even (x * 2 ^ k) \<le> n * 2 ^ k" by (rule round_half_even_le)
    then have "(of_int (round_half_even (x * 2 ^ k)) :: rat) \<le> of_int (n * 2 ^ k)"
      by (simp only: of_int_le_iff)
    then show "fl x \<le> of_int n" by (simp add: flx field_simps)
  }
  {
    assume "of_int n \<le> x"
    then have "of_int (n * 2 ^ k) \<le> x * 2 ^ k" by simp
    then have "n * 2 ^ k \<le> round_half_even (x * 2 ^ k)" by (rule round_half_even_ge)
    then have "(of_int (n * 2 ^ k) :: rat) \<le> of_int (round_half_even (x * 2 ^ k))"
      by (simp only: of_int_le_iff)
    then show "of_int n \<le> fl x" by (simp add: flx field_simps)
  }
qed

lemma fl_of_int:
  assumes "0 \<le> n" and "n < 2 ^ 53"
  shows "fl (of_int n) = of_int n"
proof (cases "n = 0")
  case True
  then show ?thesis by (simp add: fl_def)
next
  case False
  with assms have "(0::rat) < of_int n" by simp
  moreover have "(of_int n :: rat) < of_int (2 ^ 53)" using assms(2) by (simp only: of_int_less_iff)
  then have "(of_int n :: rat) < 2 ^ 53" by simp
  ultimately show ?thesis
    using fl_between_ints [of "of_int n" n] by (simp add: order_antisym)
qed

lemma trunc_le: "y \<le> of_int n \<Longrightarrow> trunc y \<le> n"
  by (simp add: trunc_def floor_le_iff ceiling_le_iff)

lemma int_of_product_le:
  assumes r: "int_of_product n x = Inr m" and x: "x < 1" and n: "0 \<le> n" "n < 2 ^ 53"
  shows "m \<le> n"
proof -
  have nf: "fl (of_int n) = of_int n" using n by (rule fl_of_int)
  have m: "m = trunc (fl (of_int n * x))"
    using r by (simp add: int_of_product_def Let_def nf split: if_splits)
  have le: "of_int n * x \<le> of_int n"
    using x n(1) by (simp add: mult_left_le)
  have "fl (of_int n * x) \<le> of_int n"
  proof (cases "0 < of_int n * x")
    case True
    moreover have "(of_int n :: rat) < of_int (2 ^ 53)" using n(2) by (simp only: of_int_less_iff)
    then have "of_int n * x < 2 ^ 53" using le by simp
    ultimately show ?thesis using le by (rule fl_between_ints(1))
  next
    case False
    then have "fl (of_int n * x) \<le> 0" by (intro fl_nonpos) simp
    then show ?thesis using n(1) by simp
  qed
  then show ?thesis unfolding m by (rule trunc_le)
qed

lemma binade_eqI:
  assumes "pow2 b \<le> \<bar>x\<bar>" and "\<bar>x\<bar> < pow2 (b + 1)"
  shows "binade x = b"
proof -
  have "x \<noteq> 0" using assms(1) pow2_pos [of b] by auto
  then have B: "pow2 (binade x) \<le> \<bar>x\<bar>" "\<bar>x\<bar> < pow2 (binade x + 1)"
    using binade_bounds by simp_all
  have "pow2 (binade x) < pow2 (b + 1)" using B(1) assms(2) by simp
  then have "binade x < b + 1"
    using pow2_mono [of "b + 1" "binade x"] by (cases "binade x < b + 1") simp_all
  moreover have "pow2 b < pow2 (binade x + 1)" using B(2) assms(1) by simp
  then have "b < binade x + 1"
    using pow2_mono [of "binade x + 1" b] by (cases "b < binade x + 1") simp_all
  ultimately show ?thesis by simp
qed

lemma round_half_even_close: "\<bar>of_int (round_half_even y) - y\<bar> \<le> 1 / 2"
proof -
  define r where "r = y - of_int \<lfloor>y\<rfloor>"
  have r: "0 \<le> r" "r < 1" by (simp_all add: r_def) linarith+
  have y: "y = of_int \<lfloor>y\<rfloor> + r" by (simp add: r_def)
  consider "r < 1 / 2" | "1 / 2 < r" | "r = 1 / 2" by linarith
  then show ?thesis
  proof cases
    case 1
    then have "round_half_even y = \<lfloor>y\<rfloor>" by (simp add: round_half_even_def Let_def r_def)
    then have "of_int (round_half_even y) - y = - r" by (simp add: r_def)
    then show ?thesis using 1 r by (simp add: abs_if)
  next
    case 2
    then have "round_half_even y = \<lfloor>y\<rfloor> + 1" by (simp add: round_half_even_def Let_def r_def)
    then have "of_int (round_half_even y) - y = 1 - r" by (simp add: r_def)
    then show ?thesis using 2 r by (simp add: abs_if)
  next
    case 3
    then have "round_half_even y = \<lfloor>y\<rfloor> \<or> round_half_even y = \<lfloor>y\<rfloor> + 1"
      by (simp add: round_half_even_def Let_def r_def)
    then have "of_int (round_half_even y) - y = - r \<or> of_int (round_half_even y) - y = 1 - r"
      by (auto simp: r_def)
    then show ?thesis using 3 by auto
  qed
qed

lemma binade_ge:
  assumes "pow2 k \<le> \<bar>x\<bar>"
  shows "k \<le> binade x"
proof -
  have "x \<noteq> 0" using assms pow2_pos [of k] by auto
  then have "\<bar>x\<bar> < pow2 (binade x + 1)" using binade_bounds by simp
  then have "pow2 k < pow2 (binade x + 1)" using assms by simp
  then have "k < binade x + 1"
    using pow2_mono [of "binade x + 1" k] by (cases "k < binade x + 1") simp_all
  then show ?thesis by simp
qed

lemma fl_error:
  assumes "pow2 (- 1022) \<le> \<bar>x\<bar>"
  shows "\<bar>fl x - x\<bar> \<le> \<bar>x\<bar> / 2 ^ 53"
proof -
  have x0: "x \<noteq> 0" using assms pow2_pos [of "- 1022"] by auto
  define e where "e = binade x - 52"
  have "- 1022 \<le> binade x" using assms by (rule binade_ge)
  then have "max (binade x - 52) (- 1074) = e" by (simp add: e_def)
  then have flx: "fl x = of_int (round_half_even (x / pow2 e)) * pow2 e"
    using x0 by (simp add: fl_def Let_def)
  have pe: "0 < pow2 e" by (rule pow2_pos)
  have "fl x - x = (of_int (round_half_even (x / pow2 e)) - x / pow2 e) * pow2 e"
    using pe by (simp add: flx field_simps)
  then have "\<bar>fl x - x\<bar> = \<bar>of_int (round_half_even (x / pow2 e)) - x / pow2 e\<bar> * pow2 e"
    using pe by (simp add: abs_mult)
  also have "\<dots> \<le> (1 / 2) * pow2 e"
    using round_half_even_close [of "x / pow2 e"] pe by (intro mult_right_mono) simp_all
  also have "\<dots> = pow2 (binade x) / 2 ^ 53"
    using pow2_split [of "binade x"] by (simp add: e_def)
  also have "\<dots> \<le> \<bar>x\<bar> / 2 ^ 53"
    using binade_bounds [OF x0] by (simp add: divide_right_mono)
  finally show ?thesis .
qed


lemma small_not_overflows: "\<bar>x\<bar> < 2 ^ 53 \<Longrightarrow> \<not> overflows x"
proof -
  assume "\<bar>x\<bar> < 2 ^ 53"
  moreover have "(2::rat) ^ 53 \<le> 2 ^ 1024" by (rule power_increasing) simp_all
  ultimately show ?thesis by (simp add: overflows_def)
qed

lemma int_of_product_small:
  assumes n: "0 \<le> n" "n < 2 ^ 53" and x: "0 \<le> x" "x \<le> 1"
  shows "int_of_product n x = Inr (trunc (fl (of_int n * x)))"
proof -
  have nf: "fl (of_int n) = of_int n" using n by (rule fl_of_int)
  have n53: "(of_int n :: rat) < 2 ^ 53"
    using n(2) by (metis of_int_less_iff of_int_numeral of_int_power)
  have le: "of_int n * x \<le> of_int n" using n(1) x(2) by (simp add: mult_left_le)
  have ge: "0 \<le> of_int n * x" using n(1) x(1) by simp
  have "0 \<le> fl (of_int n * x) \<and> fl (of_int n * x) \<le> of_int n"
  proof (cases "of_int n * x = 0")
    case True
    then show ?thesis using n(1) by (simp add: fl_def)
  next
    case False
    with ge have pos: "0 < of_int n * x" by (auto simp: less_le)
    have lt: "of_int n * x < 2 ^ 53" using le n53 by simp
    show ?thesis
      using fl_between_ints(1) [OF pos lt, of n] fl_between_ints(2) [OF pos lt, of 0] le ge
      by simp
  qed
  then have "\<bar>fl (of_int n * x)\<bar> < 2 ^ 53" using n53 by simp
  then have "\<not> overflows (fl (of_int n * x))" by (rule small_not_overflows)
  moreover have "\<not> overflows (of_int n)" using n n53 by (intro small_not_overflows) simp
  ultimately show ?thesis by (simp add: int_of_product_def Let_def nf)
qed

subsection \<open>The resize arithmetic\<close>

lemma target_size_within:
  assumes "0 < max w h" and "max w h \<le> max_side"
  shows "target_size max_side (w, h) =
           (if overflows (fl (of_int max_side / of_int (max w h)))
            then Inl (Exception ''integer division result too large for a float'')
            else Inr None)"
proof -
  have "(1::rat) \<le> of_int max_side / of_int (max w h)"
    using assms by (simp add: pos_le_divide_eq)
  then have "1 \<le> fl (of_int max_side / of_int (max w h))" by (rule fl_ge_one)
  then show ?thesis
    using assms(1) by (simp add: target_size_def true_div_def Let_def)
qed

lemma no_overflow_within:
  assumes "0 < max w h" and "max w h \<le> max_side" and "max_side < 2 ^ 1023"
  shows "\<not> overflows (fl (of_int max_side / of_int (max w h)))"
proof -
  let ?x = "of_int max_side / of_int (max w h) :: rat"
  have one: "1 \<le> ?x" using assms by (simp add: pos_le_divide_eq)
  have "(1::rat) \<le> of_int (max w h)" using assms(1) by linarith
  moreover have "(0::rat) \<le> of_int max_side" using assms(1,2) by linarith
  ultimately have "of_int max_side * 1 \<le> (of_int max_side :: rat) * of_int (max w h)"
    by (intro mult_left_mono)
  then have "?x \<le> of_int max_side"
    using assms(1) by (simp add: pos_divide_le_eq)
  also have "(of_int max_side :: rat) < of_int (2 ^ 1023)"
    using assms(3) by (simp only: of_int_less_iff)
  finally have "2 * ?x < 2 ^ 1024" by simp
  moreover have "fl ?x \<le> 2 * ?x" using one by (rule fl_le_twice)
  moreover have "0 \<le> fl ?x" using fl_ge_one [OF one] by simp
  ultimately show ?thesis by (simp add: overflows_def)
qed

lemma target_size_le:
  assumes t: "target_size max_side (w, h) = Inr (Some (w', h'))"
    and w: "0 \<le> w" "w < 2 ^ 53" and h: "0 \<le> h" "h < 2 ^ 53"
  shows "w' \<le> w \<and> h' \<le> h"
proof -
  from t obtain ratio where r: "ratio < 1"
    and pw: "int_of_product w ratio = Inr w'" and ph: "int_of_product h ratio = Inr h'"
    by (auto simp: target_size_def split: sum.splits if_splits)
  show ?thesis
    using int_of_product_le [OF pw r w] int_of_product_le [OF ph r h] by simp
qed

text \<open>
  Where the longer side \<open>w\<close> exceeds \<open>m\<close>, the side asked for is \<open>m\<close> or \<open>m - 1\<close>:
  each of the two roundings moves the value by less than a part in \<open>2 ^ 53\<close>.
\<close>

lemma longest_side_range:
  assumes m: "0 < m" "m < w" and h: "0 \<le> h" "h \<le> w" and w: "w < 2 ^ 50"
  shows "\<exists>w' h'. target_size m (w, h) = Inr (Some (w', h')) \<and> (w' = m \<or> w' = m - 1)"
proof -
  define x :: rat where "x = of_int m / of_int w"
  define r where "r = fl x"
  define p where "p = of_int w * r"
  define y where "y = fl p"
  have wpos: "(0::rat) < of_int w" and mpos: "(1::rat) \<le> of_int m"
    using m by simp_all
  have w50: "(of_int w :: rat) < 2 ^ 50" and m50: "(of_int m :: rat) < 2 ^ 50"
    using m w by (metis of_int_less_iff of_int_numeral of_int_power, metis less_trans of_int_less_iff of_int_numeral of_int_power)
  have w53: "w < 2 ^ 53" and h53: "h < 2 ^ 53" using w h by simp_all
  have xpos: "0 < x" using m wpos by (simp add: x_def)
  have wx: "of_int w * x = of_int m" using wpos by (simp add: x_def)
  \<comment> \<open>the quotient is a normal number\<close>
  have "1 / 2 ^ 50 \<le> 1 / (of_int w :: rat)"
    using w50 wpos by (intro divide_left_mono) simp_all
  also have "\<dots> \<le> x" using mpos wpos by (simp add: x_def divide_right_mono)
  finally have "pow2 (- 50) \<le> x" by (simp add: pow2_def)
  moreover have "pow2 (- 1022) \<le> pow2 (- 50)" by (rule pow2_mono) simp
  ultimately have "pow2 (- 1022) \<le> \<bar>x\<bar>" using xpos by simp
  then have "\<bar>r - x\<bar> \<le> \<bar>x\<bar> / 2 ^ 53" unfolding r_def by (rule fl_error)
  moreover define dx where "dx = x / 2 ^ 53"
  ultimately have err_r: "\<bar>r - x\<bar> \<le> dx" using xpos by simp
  \<comment> \<open>the rounded ratio is positive and below one\<close>
  have "dx < x" using xpos by (simp add: dx_def divide_less_eq)
  then have rpos: "0 < r" using err_r by linarith
  have "m * (2 ^ 53 + 1) \<le> (w - 1) * (2 ^ 53 + 1)" using m by (intro mult_right_mono) simp_all
  also have "\<dots> < w * 2 ^ 53" using w53 by (simp add: algebra_simps)
  finally have "(of_int (m * (2 ^ 53 + 1)) :: rat) < of_int (w * 2 ^ 53)"
    by (simp only: of_int_less_iff)
  then have "of_int m * (2 ^ 53 + 1) < (of_int w :: rat) * 2 ^ 53" by simp
  then have "x * (2 ^ 53 + 1) < 2 ^ 53" using wpos by (simp add: x_def field_simps)
  then have "x + dx < 1" by (simp add: dx_def field_simps)
  then have rlt: "r < 1" using err_r by linarith
  have "\<not> overflows r" using rpos rlt by (intro small_not_overflows) simp
  then have td: "true_div m (max w h) = Inr r"
    using m h by (simp add: true_div_def Let_def max_def r_def x_def)
  \<comment> \<open>the product with the longer side\<close>
  define dm :: rat where "dm = of_int m / 2 ^ 53"
  have "p - of_int m = of_int w * r - of_int w * x" by (simp only: p_def wx)
  then have "p - of_int m = of_int w * (r - x)" by (simp only: right_diff_distrib)
  then have "\<bar>p - of_int m\<bar> = of_int w * \<bar>r - x\<bar>" using wpos by (simp add: abs_mult)
  also have "\<dots> \<le> of_int w * dx" using err_r wpos by (intro mult_left_mono) simp_all
  also have "\<dots> = of_int w * x / 2 ^ 53" by (simp add: dx_def)
  also have "\<dots> = dm" by (simp only: wx dm_def)
  finally have err_p: "\<bar>p - of_int m\<bar> \<le> dm" .
  have m8: "dm < 1 / 8" using m50 by (simp add: dm_def)
  have p_lo: "of_int m - 1 / 8 < p" and p_hi: "p < of_int m + 1 / 8"
    using err_p m8 by linarith+
  have ppos: "1 / 2 < p" using p_lo mpos by linarith
  have "pow2 (- 1022) \<le> pow2 (- 1)" by (rule pow2_mono) simp
  then have "pow2 (- 1022) \<le> \<bar>p\<bar>" using ppos by (simp add: pow2_def)
  then have "\<bar>y - p\<bar> \<le> \<bar>p\<bar> / 2 ^ 53" unfolding y_def by (rule fl_error)
  moreover define dp where "dp = p / 2 ^ 53"
  ultimately have err_y: "\<bar>y - p\<bar> \<le> dp" using ppos by simp
  have "p < 2 ^ 51" using p_hi m50 by simp
  then have "dp < 1 / 4" by (simp add: dp_def)
  then have y_lo: "of_int m - 1 < y" and y_hi: "y < of_int m + 1"
    using err_y p_lo p_hi by linarith+
  have ypos: "0 \<le> y" using y_lo mpos by linarith
  have "of_int (m - 1) \<le> y" using y_lo by simp
  then have "m - 1 \<le> \<lfloor>y\<rfloor>" by (simp only: le_floor_iff)
  moreover have "y < of_int (m + 1)" using y_hi by simp
  then have "\<lfloor>y\<rfloor> < m + 1" by (simp only: floor_less_iff)
  ultimately have tr: "trunc y = m \<or> trunc y = m - 1" using ypos by (auto simp: trunc_def)
  have iw: "int_of_product w r = Inr (trunc y)"
    using int_of_product_small [of w r] m w53 rpos rlt by (simp add: y_def p_def)
  have ih: "int_of_product h r = Inr (trunc (fl (of_int h * r)))"
    using int_of_product_small [of h r] h h53 rpos rlt by simp
  have "target_size m (w, h) = Inr (Some (trunc y, trunc (fl (of_int h * r))))"
    by (simp add: target_size_def td rlt iw ih)
  then show ?thesis using tr by blast
qed

text \<open>Two sizes worked out: an image 2139 pixels wide, and the photograph of the sample folder.\<close>

lemma floor_rat_numeral: "\<lfloor>numeral a / numeral b :: rat\<rfloor> = numeral a div numeral b"
  by (metis floor_divide_of_int_eq of_int_numeral)

lemma fl_ratio_wide: "fl (1280 / 2139) = 5390002359078293 / 9007199254740992"
proof -
  have "binade (1280 / 2139) = - 1" by (rule binade_eqI) (simp_all add: pow2_def)
  then show ?thesis
    by (simp add: fl_def Let_def pow2_def round_half_even_def floor_rat_numeral)
qed

lemma fl_width_wide:
  "fl (11529215046068468727 / 9007199254740992) = 5629499534213119 / 4398046511104"
proof -
  have "binade (11529215046068468727 / 9007199254740992) = 10"
    by (rule binade_eqI) (simp_all add: pow2_def)
  then show ?thesis
    by (simp add: fl_def Let_def pow2_def round_half_even_def floor_rat_numeral)
qed

lemma fl_height_wide:
  "fl (673750294884786625 / 1125899906842624) = 1315918544696849 / 2199023255552"
proof -
  have "binade (673750294884786625 / 1125899906842624) = 9"
    by (rule binade_eqI) (simp_all add: pow2_def)
  then show ?thesis
    by (simp add: fl_def Let_def pow2_def round_half_even_def floor_rat_numeral)
qed

lemma target_size_wide: "target_size 1280 (2139, 1000) = Inr (Some (1279, 598))"
proof -
  have r: "true_div 1280 2139 = Inr (5390002359078293 / 9007199254740992)"
    by (simp add: true_div_def fl_ratio_wide overflows_def)
  have w: "int_of_product 2139 (5390002359078293 / 9007199254740992) = Inr 1279"
    using fl_of_int [of 2139]
    by (simp add: int_of_product_def Let_def fl_width_wide overflows_def trunc_def
        floor_rat_numeral)
  have h: "int_of_product 1000 (5390002359078293 / 9007199254740992) = Inr 598"
    using fl_of_int [of 1000]
    by (simp add: int_of_product_def Let_def fl_height_wide overflows_def trunc_def
        floor_rat_numeral)
  show ?thesis
    by (simp add: target_size_def r w h)
qed

lemma fl_ratio_holiday: "fl (8 / 25) = 5764607523034235 / 18014398509481984"
proof -
  have "binade (8 / 25) = - 2" by (rule binade_eqI) (simp_all add: pow2_def)
  then show ?thesis
    by (simp add: fl_def Let_def pow2_def round_half_even_def floor_rat_numeral)
qed

lemma fl_width_holiday: "fl (720575940379279375 / 562949953421312) = 1280"
proof -
  have "binade (720575940379279375 / 562949953421312) = 10"
    by (rule binade_eqI) (simp_all add: pow2_def)
  then show ?thesis
    by (simp add: fl_def Let_def pow2_def round_half_even_def floor_rat_numeral)
qed

lemma fl_height_holiday: "fl (2161727821137838125 / 2251799813685248) = 960"
proof -
  have "binade (2161727821137838125 / 2251799813685248) = 9"
    by (rule binade_eqI) (simp_all add: pow2_def)
  then show ?thesis
    by (simp add: fl_def Let_def pow2_def round_half_even_def floor_rat_numeral)
qed

lemma target_size_holiday: "target_size 1280 (4000, 3000) = Inr (Some (1280, 960))"
proof -
  have r: "true_div 1280 4000 = Inr (5764607523034235 / 18014398509481984)"
    by (simp add: true_div_def fl_ratio_holiday overflows_def)
  have w: "int_of_product 4000 (5764607523034235 / 18014398509481984) = Inr 1280"
    using fl_of_int [of 4000]
    by (simp add: int_of_product_def Let_def fl_width_holiday overflows_def trunc_def)
  have h: "int_of_product 3000 (5764607523034235 / 18014398509481984) = Inr 960"
    using fl_of_int [of 3000]
    by (simp add: int_of_product_def Let_def fl_height_holiday overflows_def trunc_def)
  show ?thesis
    by (simp add: target_size_def r w h)
qed

section \<open>The claims about the resize\<close>

text \<open>
  C1. The spec has every image whose longer side exceeds \<open>max_side\<close> come out with
  its longer side equal to \<open>max_side\<close>, and the script's header says the same
  (``Resizes so the longest side is 1280px''). The product of the side with the rounded
  ratio can fall just below \<open>max_side\<close>, and \<^verbatim>\<open>int\<close> then cuts it to \<open>max_side - 1\<close>
  (never further, by \<open>longest_side_range\<close>): with the default 1280, an image 2139 by
  1000 is resized to 1279 by 598.
\<close>

theorem longest_side_one_short:
  "target_size 1280 (2139, 1000) = Inr (Some (1279, 598))
   \<and> fit env 1280 wide = resize env wide (1279, 598)"
  by (simp add: fit_def wide_def target_size_wide)

text \<open>
  C2. An image whose longer side is at most \<open>max_side\<close> is not resized: \<open>fit\<close> hands
  back the very image it was given, so what \<open>process_image\<close> stores is the loaded
  image, unless the quotient is too large for a float, which needs a \<open>max_side\<close> of
  more than three hundred digits and raises. And no image is ever enlarged: a size
  that \<open>fit\<close> asks \<^verbatim>\<open>resize\<close> for is within the image's own size.
\<close>

theorem no_resize_within_bounds:
  assumes sz: "img_size img = (w, h)"
  shows "(0 < max w h \<and> max w h \<le> max_side \<longrightarrow>
            fit env max_side img = Inr img
            \<or> fit env max_side img = Inl (Exception ''integer division result too large for a float''))
       \<and> (0 < max w h \<and> max w h \<le> max_side \<and> max_side < 2 ^ 1023 \<longrightarrow>
            fit env max_side img = Inr img
            \<and> (\<forall>s ex icc. load env input_path s = Inr (img, ex, icc) \<longrightarrow>
                 process_image env input_path output_path max_side q s =
                   (case store env img output_path (save_args q ex icc) s of
                      (Some e, s') \<Rightarrow> (err_line input_path e, s')
                    | (None, s') \<Rightarrow> (ok_line input_path output_path, s'))))
       \<and> (0 \<le> w \<and> w < 2 ^ 53 \<and> 0 \<le> h \<and> h < 2 ^ 53 \<longrightarrow>
            (\<forall>img'. fit env max_side img = Inr img' \<longrightarrow>
               img' = img \<or> (\<exists>w' h'. w' \<le> w \<and> h' \<le> h \<and> resize env img (w', h') = Inr img')))"
proof (intro conjI impI allI)
  assume b: "0 < max w h \<and> max w h \<le> max_side"
  then show "fit env max_side img = Inr img
    \<or> fit env max_side img = Inl (Exception ''integer division result too large for a float'')"
    using target_size_within [of w h max_side] by (simp add: fit_def sz)
next
  assume b: "0 < max w h \<and> max w h \<le> max_side \<and> max_side < 2 ^ 1023"
  then have "target_size max_side (w, h) = Inr None"
    using target_size_within [of w h max_side] no_overflow_within [of w h max_side] by simp
  then show "fit env max_side img = Inr img" by (simp add: fit_def sz)
next
  fix s ex icc
  assume b: "0 < max w h \<and> max w h \<le> max_side \<and> max_side < 2 ^ 1023"
    and l: "load env input_path s = Inr (img, ex, icc)"
  from b have "target_size max_side (w, h) = Inr None"
    using target_size_within [of w h max_side] no_overflow_within [of w h max_side] by simp
  then have "fit env max_side img = Inr img" by (simp add: fit_def sz)
  then show "process_image env input_path output_path max_side q s =
      (case store env img output_path (save_args q ex icc) s of
         (Some e, s') \<Rightarrow> (err_line input_path e, s')
       | (None, s') \<Rightarrow> (ok_line input_path output_path, s'))"
    by (simp add: process_image_def l)
next
  fix img'
  assume r: "0 \<le> w \<and> w < 2 ^ 53 \<and> 0 \<le> h \<and> h < 2 ^ 53"
    and f: "fit env max_side img = Inr img'"
  show "img' = img \<or> (\<exists>w' h'. w' \<le> w \<and> h' \<le> h \<and> resize env img (w', h') = Inr img')"
  proof (cases "target_size max_side (w, h)")
    case (Inl e)
    with f show ?thesis by (simp add: fit_def sz)
  next
    case (Inr t)
    show ?thesis
    proof (cases t)
      case None
      with Inr f show ?thesis by (simp add: fit_def sz)
    next
      case (Some p)
      obtain w' h' where p: "p = (w', h')" by (cases p)
      have "w' \<le> w \<and> h' \<le> h"
        using Inr Some p r by (intro target_size_le [of max_side]) simp_all
      moreover have "resize env img (w', h') = Inr img'"
        using Inr Some p f by (simp add: fit_def sz)
      ultimately show ?thesis by blast
    qed
  qed
qed

theorem no_resize_within_bounds_witness:
  "img_size logo = (640, 480) \<and> 0 < max (640::int) 480 \<and> max (640::int) 480 \<le> 1280
   \<and> (1280::int) < 2 ^ 1023 \<and> fit sample_env 1280 logo = Inr logo
   \<and> img_size holiday = (4000, 3000) \<and> (4000::int) < 2 ^ 53
   \<and> fit sample_env 1280 holiday = Inr (holiday\<lparr>img_size := (1280, 960)\<rparr>)
   \<and> 1280 \<le> (4000::int) \<and> 960 \<le> (3000::int)"
proof -
  have l: "img_size logo = (640, 480)" by (simp add: logo_def)
  have h: "img_size holiday = (4000, 3000)" by (simp add: holiday_def)
  have f: "fit sample_env 1280 holiday = Inr (holiday\<lparr>img_size := (1280, 960)\<rparr>)"
    by (simp add: fit_def h target_size_holiday sample_env_def sample_resize_def)
  show ?thesis
    using no_resize_within_bounds [OF l, of 1280 sample_env] 
      no_resize_within_bounds [OF h, of 1280 sample_env] l h f
    by simp
qed

section \<open>Properties of the transform and of a run\<close>

subsection \<open>Paths and names\<close>

lemma name_joinpath: "name (joinpath p c) = c"
  by (simp add: name_def joinpath_def)

lemma parent_joinpath: "parent (joinpath p c) = p"
  by (simp add: parent_def joinpath_def)

lemma compressed_not_photos: "compressed \<noteq> photos"
  by (simp add: compressed_def joinpath_def photos_def)

lemma rfind_absent: "c \<notin> set xs \<Longrightarrow> rfind c xs = - 1"
  by (induction xs) (auto simp: Let_def)

lemma rfind_last: "c \<notin> set ys \<Longrightarrow> rfind c (xs @ c # ys) = int (length xs)"
  by (induction xs) (simp_all add: Let_def rfind_absent)

lemma stem_suffix_split:
  assumes "base \<noteq> []" and "ext \<noteq> []" and "CHR ''.'' \<notin> set ext"
  shows "stem (joinpath dir (base @ ''.'' @ ext)) = base"
    and "suffix (joinpath dir (base @ ''.'' @ ext)) = ''.'' @ ext"
proof -
  have r: "rfind CHR ''.'' (base @ CHR ''.'' # ext) = int (length base)"
    using assms(3) by (rule rfind_last)
  have l: "0 < length base" "0 < length ext" using assms(1,2) by simp_all
  show "stem (joinpath dir (base @ ''.'' @ ext)) = base"
    using l by (simp add: stem_def name_joinpath Let_def r)
  show "suffix (joinpath dir (base @ ''.'' @ ext)) = ''.'' @ ext"
    using l by (simp add: suffix_def name_joinpath Let_def r)
qed

subsection \<open>One transform\<close>

lemma process_image_line:
  "fst (process_image env inp out ms q s) = ok_line inp out
   \<or> (\<exists>e. fst (process_image env inp out ms q s) = err_line inp e)"
  by (auto simp: process_image_def split: sum.splits option.splits prod.splits)

subsection \<open>The events of a run\<close>

lemma finished_run_sequential:
  "finished (fst (run_sequential env d ms q ps s)) = ps"
  by (induction ps arbitrary: s) (simp_all add: split_beta Let_def)

lemma finished_collect:
  "finished (fst (collect env ms q ts s)) = map fst ts"
  by (induction ts arbitrary: s) (auto simp: split_beta Let_def)

lemma finished_append: "finished (xs @ ys) = finished xs @ finished ys"
  by (induction xs rule: finished.induct) simp_all

lemma finished_Submitted: "finished (map (\<lambda>(inp, out). Submitted inp) ts) = []"
  by (induction ts) auto

lemma in_flight_append: "in_flight (xs @ ys) = in_flight xs + in_flight ys"
  by (induction xs rule: in_flight.induct) simp_all

lemma mset_insert_at: "mset (insert_at k x ys) = add_mset x (mset ys)"
proof -
  have "mset (take k ys) + mset (drop k ys) = mset ys"
    by (metis append_take_drop_id mset_append)
  then show ?thesis by (simp add: insert_at_def)
qed

lemma mset_arrange: "mset (arrange ks xs) = mset xs"
  by (induction ks xs rule: arrange.induct) (simp_all add: mset_insert_at)

lemma strictly_sequential_run:
  "strictly_sequential ps (fst (run_sequential env d ms q ps s))"
  by (induction ps arbitrary: s) (simp_all add: split_beta Let_def)

lemma strictly_sequential_in_flight:
  "strictly_sequential ps evs \<Longrightarrow> in_flight evs = 0"
  by (induction ps evs rule: strictly_sequential.induct) simp_all

lemma strictly_sequential_prefix:
  "strictly_sequential ps evs \<Longrightarrow> 0 \<le> in_flight (take n evs) \<and> in_flight (take n evs) \<le> 1"
proof (induction ps evs arbitrary: n rule: strictly_sequential.induct)
  case 1
  then show ?case by simp
next
  case (2 p ps p1 p2 r r' evs)
  then have IH: "0 \<le> in_flight (take k evs) \<and> in_flight (take k evs) \<le> 1" for k by simp
  show ?case
  proof (cases n)
    case 0
    then show ?thesis by simp
  next
    case (Suc a)
    show ?thesis
    proof (cases a)
      case 0
      with Suc show ?thesis by simp
    next
      case (Suc b)
      show ?thesis
      proof (cases b)
        case 0
        with \<open>n = Suc a\<close> \<open>a = Suc b\<close> show ?thesis by simp
      next
        case (Suc c)
        with \<open>n = Suc a\<close> \<open>a = Suc b\<close> IH [of c] show ?thesis by simp
      qed
    qed
  qed
qed simp_all

lemma select_files_answers:
  assumes "\<forall>p\<in>set children. lower (suffix p) \<in> set exts \<longrightarrow> (\<exists>b. is_file env p s = Inr b)"
  shows "select_files env s children = Inr (filter (eligible env s) children)"
  using assms by (induction children) (auto simp: eligible_def)

lemma select_files_Inr:
  "select_files env s children = Inr fs \<Longrightarrow> fs = filter (eligible env s) children"
  by (induction children arbitrary: fs) (auto simp: eligible_def split: if_splits sum.splits)

lemma select_files_Inl:
  "(\<exists>e. select_files env s children = Inl e)
     \<longleftrightarrow> (\<exists>p\<in>set children. lower (suffix p) \<in> set exts \<and> (\<exists>e. is_file env p s = Inl e))"
  by (induction children) (auto split: sum.splits)

lemma main_early:
  "path_exists env d s = Inl e \<Longrightarrow>
     main env d ms q s = \<lparr>status = Uncaught e, trace = [], final = s\<rparr>"
  "path_exists env d s = Inr True \<Longrightarrow> is_dir env d s = Inl e \<Longrightarrow>
     main env d ms q s = \<lparr>status = Uncaught e, trace = [], final = s\<rparr>"
  "path_exists env d s = Inr True \<Longrightarrow> is_dir env d s = Inr True \<Longrightarrow> iterdir env d s = Inl e \<Longrightarrow>
     main env d ms q s = \<lparr>status = Uncaught e, trace = [], final = s\<rparr>"
  "path_exists env d s = Inr True \<Longrightarrow> is_dir env d s = Inr True \<Longrightarrow>
     iterdir env d s = Inr children \<Longrightarrow> select_files env s children = Inl e \<Longrightarrow>
     main env d ms q s = \<lparr>status = Uncaught e, trace = [], final = s\<rparr>"
  by (simp_all add: main_def Let_def)

lemma main_not_found:
  assumes "path_exists env d s = Inr False
         \<or> path_exists env d s = Inr True \<and> is_dir env d s = Inr False"
  shows "main env d ms q s =
     \<lparr>status = Exit 1,
      trace = [Print (''Error: input folder not found: '' @ str_path (sep env) d)],
      final = s\<rparr>"
  using assms by (auto simp: main_def Let_def)

lemma main_listed:
  assumes "path_exists env d s = Inr True" and "is_dir env d s = Inr True"
    and "iterdir env d s = Inr children" and "select_files env s children = Inr fs"
  shows "main env d ms q s =
     (let summary = Print (''Total elapsed time: '' @ elapsed env @ '' seconds'');
          mode = Print (''Mode: Local drive. Processing in parallel with ''
                        @ str_nat (cores env) @ '' cores in: '' @ str_path (sep env) d)
      in if fs = []
         then \<lparr>status = Exit 0,
               trace = [Print (''No images found in: '' @ str_path (sep env) d)], final = s\<rparr>
         else if is_network_path env d
         then \<lparr>status = Returned,
               trace = Print (''Mode: Network path detected. Processing sequentially in: ''
                              @ str_path (sep env) d)
                       # fst (run_sequential env (joinpath d ''compressed'') ms q fs s) @ [summary],
               final = snd (run_sequential env (joinpath d ''compressed'') ms q fs s)\<rparr>
         else (case ProcessPoolExecutor env (cores env) of
                 Some e \<Rightarrow> \<lparr>status = Uncaught e, trace = [mode], final = s\<rparr>
               | None \<Rightarrow>
                   \<lparr>status = Returned,
                    trace = mode
                       # fst (run_parallel env (cores env) (joinpath d ''compressed'') ms q fs s)
                       @ [summary],
                    final = snd (run_parallel env (cores env) (joinpath d ''compressed'') ms q fs s)\<rparr>))"
  using assms by (simp add: main_def Let_def split_beta split: option.splits)

lemma status_main:
  "status (main env d ms q s) =
     (case path_exists env d s of
        Inl e \<Rightarrow> Uncaught e
      | Inr there \<Rightarrow>
          if \<not> there then Exit 1
          else (case is_dir env d s of
                  Inl e \<Rightarrow> Uncaught e
                | Inr folder \<Rightarrow>
                    if \<not> folder then Exit 1
                    else (case iterdir env d s of
                            Inl e \<Rightarrow> Uncaught e
                          | Inr children \<Rightarrow>
                              (case select_files env s children of
                                 Inl e \<Rightarrow> Uncaught e
                               | Inr fs \<Rightarrow>
                                   if fs = [] then Exit 0
                                   else if is_network_path env d then Returned
                                   else (case ProcessPoolExecutor env (cores env) of
                                           Some e \<Rightarrow> Uncaught e
                                         | None \<Rightarrow> Returned)))))"
  by (simp add: main_def Let_def split_beta split: sum.splits option.splits)

lemma run_parallel_trace:
  "fst (run_parallel env n d ms q ps s) =
     Pool n # map Submitted ps
     @ fst (collect env ms q (arrange (completion env) (map (\<lambda>p. (p, output_for d p)) ps)) s)"
  by (simp add: run_parallel_def Let_def split_beta comp_def)

lemma finished_run_parallel:
  "mset (finished (fst (run_parallel env n d ms q ps s))) = mset ps"
proof -
  let ?ts = "map (\<lambda>p. (p, output_for d p)) ps"
  have "finished (map Submitted ps) = []" by (induction ps) simp_all
  then have a: "finished (fst (run_parallel env n d ms q ps s)) = map fst (arrange (completion env) ?ts)"
    by (simp add: run_parallel_trace finished_append finished_collect)
  have c: "map fst ?ts = ps" by (simp add: comp_def)
  have "mset (finished (fst (run_parallel env n d ms q ps s))) = mset (map fst (arrange (completion env) ?ts))"
    by (simp only: a)
  also have "\<dots> = mset (map fst ?ts)"
    by (simp only: mset_map mset_arrange)
  finally show ?thesis by (simp only: c)
qed

lemma finished_main:
  assumes "path_exists env d s = Inr True" and "is_dir env d s = Inr True"
    and "iterdir env d s = Inr children" and "select_files env s children = Inr fs"
    and "fs = [] \<or> is_network_path env d \<or> ProcessPoolExecutor env (cores env) = None"
  shows "mset (finished (trace (main env d ms q s))) = mset fs"
    and "is_network_path env d \<Longrightarrow> finished (trace (main env d ms q s)) = fs"
proof -
  have seq: "finished (trace (main env d ms q s)) = fs" if "fs = [] \<or> is_network_path env d"
  proof (cases "fs = []")
    case True
    then show ?thesis by (simp add: main_listed [OF assms(1-4)] Let_def)
  next
    case False
    with that show ?thesis
      by (simp add: main_listed [OF assms(1-4)] Let_def finished_append finished_run_sequential)
  qed
  then show "is_network_path env d \<Longrightarrow> finished (trace (main env d ms q s)) = fs" by simp
  show "mset (finished (trace (main env d ms q s))) = mset fs"
  proof (cases "fs = [] \<or> is_network_path env d")
    case True
    then show ?thesis using seq by simp
  next
    case False
    with assms(5) have "ProcessPoolExecutor env (cores env) = None" by simp
    with False show ?thesis
      using finished_run_parallel [of env "cores env" "joinpath d ''compressed''" ms q fs s]
      by (simp add: main_listed [OF assms(1-4)] Let_def finished_append)
  qed
qed

lemma finished_main_early:
  assumes "exit_status (status (main env d ms q s)) \<noteq> 0"
  shows "finished (trace (main env d ms q s)) = [] \<and> final (main env d ms q s) = s"
proof -
  have "status (main env d ms q s) = Returned \<or> status (main env d ms q s) = Exit 0
      \<or> finished (trace (main env d ms q s)) = [] \<and> final (main env d ms q s) = s"
    by (simp add: main_def Let_def split_beta split: sum.splits option.splits)
  with assms show ?thesis by auto
qed

lemma pools_append: "pools (xs @ ys) = pools xs @ pools ys"
  by (induction xs rule: pools.induct) simp_all

lemma submitted_append: "submitted (xs @ ys) = submitted xs @ submitted ys"
  by (induction xs rule: submitted.induct) simp_all

lemma pools_run_sequential: "pools (fst (run_sequential env d ms q ps s)) = []"
  by (induction ps arbitrary: s) (simp_all add: split_beta Let_def)

lemma submitted_run_sequential: "submitted (fst (run_sequential env d ms q ps s)) = []"
  by (induction ps arbitrary: s) (simp_all add: split_beta Let_def)

lemma pools_collect: "pools (fst (collect env ms q ts s)) = []"
  by (induction ts arbitrary: s) (auto simp: split_beta Let_def)

lemma submitted_collect: "submitted (fst (collect env ms q ts s)) = []"
  by (induction ts arbitrary: s) (auto simp: split_beta Let_def)

lemma pools_Submitted: "pools (map Submitted ps) = []"
  by (induction ps) simp_all

lemma submitted_Submitted: "submitted (map Submitted ps) = ps"
  by (induction ps) simp_all

lemma in_flight_framed:
  assumes "strictly_sequential ps evs"
  shows "0 \<le> in_flight (take n (Print a # evs @ [Print b]))
       \<and> in_flight (take n (Print a # evs @ [Print b])) \<le> 1"
proof (cases n)
  case 0
  then show ?thesis by simp
next
  case (Suc k)
  have "in_flight (take (k - length evs) [Print b]) = 0"
    by (cases "k - length evs") simp_all
  then have "in_flight (take n (Print a # evs @ [Print b])) = in_flight (take k evs)"
    using Suc by (simp add: in_flight_append)
  then show ?thesis
    using strictly_sequential_prefix [OF assms, of k] by simp
qed

lemma cores_positive: "1 \<le> cores env"
  by (simp add: cores_def split: option.splits)

lemma printed_append: "printed (xs @ ys) = printed xs @ printed ys"
  by (induction xs rule: printed.induct) simp_all

lemma printed_Submitted: "printed (map Submitted ps) = []"
  by (induction ps) simp_all

lemma length_printed_run_sequential:
  "length (printed (fst (run_sequential env d ms q ps s))) = length ps"
  by (induction ps arbitrary: s) (simp_all add: split_beta Let_def)

lemma length_printed_collect:
  "length (printed (fst (collect env ms q ts s))) = length ts"
  by (induction ts arbitrary: s) (auto simp: split_beta Let_def)

lemma length_arrange: "length (arrange ks xs) = length xs"
  using mset_arrange [of ks xs] by (rule mset_eq_length)

lemma arrange_complete:
  "mset ys = mset xs \<Longrightarrow> \<exists>ks. arrange ks xs = ys"
proof (induction xs arbitrary: ys)
  case Nil
  then show ?case by simp
next
  case (Cons x xs)
  then have "x \<in> set ys" by (metis list.set_intros(1) mset_eq_setD)
  then obtain as bs where ys: "ys = as @ x # bs" by (meson split_list)
  with Cons.prems have "mset (as @ bs) = mset xs" by simp
  then obtain ks where "arrange ks xs = as @ bs" using Cons.IH by blast
  then have "arrange (length as # ks) (x # xs) = ys"
    by (simp add: insert_at_def ys)
  then show ?case by blast
qed

lemma length_printed_main:
  assumes "path_exists env d s = Inr True" and "is_dir env d s = Inr True"
    and "iterdir env d s = Inr children" and "select_files env s children = Inr fs"
    and "is_network_path env d \<or> ProcessPoolExecutor env (cores env) = None"
    and "fs \<noteq> []"
  shows "length (printed (trace (main env d ms q s))) = length fs + 2"
proof (cases "is_network_path env d")
  case True
  then show ?thesis
    using assms(6)
    by (simp add: main_listed [OF assms(1-4)] Let_def printed_append length_printed_run_sequential)
next
  case False
  with assms(5) have "ProcessPoolExecutor env (cores env) = None" by simp
  with False show ?thesis
    using assms(6)
    by (simp add: main_listed [OF assms(1-4)] Let_def printed_append run_parallel_trace
        printed_Submitted length_printed_collect length_arrange)
qed

lemma collect_two:
  assumes "process_image env p1 out1 ms q s = (r1, s1)"
    and "process_image env p2 out2 ms q s1 = (r2, s2)"
  shows "collect env ms q [(p1, out1), (p2, out2)] s
           = ([Finished p1 r1, Print r1, Finished p2 r2, Print r2], s2)"
  using assms by simp

lemma run_sequential_collect:
  "snd (run_sequential env d ms q ps s)
     = snd (collect env ms q (map (\<lambda>p. (p, output_for d p)) ps) s)"
  by (induction ps arbitrary: s) (simp_all add: split_beta Let_def)

subsection \<open>The sample folder\<close>

lemma load_holiday:
  "load sample_env (joinpath photos ''holiday.jpg'') s = Inr (holiday, ''Exif-II*'', Some ''sRGB'')"
  by (simp add: load_def sample_env_def sample_open_def name_joinpath holiday_def)

lemma load_logo:
  "load sample_env (joinpath photos ''holiday.PNG'') s = Inr (logo\<lparr>img_mode := ''RGB''\<rparr>, [], Some [])"
  by (simp add: load_def sample_env_def sample_open_def name_joinpath logo_def)

lemma load_scan:
  "load sample_env (joinpath photos ''scan.tif'') s = Inr (scan, [], None)"
  by (simp add: load_def sample_env_def sample_open_def name_joinpath scan_def)

lemma load_notes:
  "load sample_env (joinpath photos ''notes.txt'') s = Inl (Exception ''cannot identify image file'')"
  by (simp add: load_def sample_env_def sample_open_def name_joinpath)

lemma fit_holiday: "fit sample_env 1280 holiday = Inr (holiday\<lparr>img_size := (1280, 960)\<rparr>)"
  by (simp add: fit_def holiday_def target_size_holiday sample_env_def sample_resize_def)

lemma fit_small:
  assumes "img_size img = (w, h)" and "0 < max w h" and "max w h \<le> 1280"
  shows "fit env 1280 img = Inr img"
proof -
  have "target_size 1280 (w, h) = Inr None"
    using target_size_within [of w h 1280] no_overflow_within [of w h 1280] assms by simp
  then show ?thesis by (simp add: fit_def assms(1))
qed

lemma fit_logo: "fit env 1280 (logo\<lparr>img_mode := ''RGB''\<rparr>) = Inr (logo\<lparr>img_mode := ''RGB''\<rparr>)"
  by (rule fit_small [of _ 640 480]) (simp_all add: logo_def)

lemma fit_scan: "fit env 1280 scan = Inr scan"
  by (rule fit_small [of _ 800 600]) (simp_all add: scan_def)

lemma mkdir_disk0:
  "mkdir sample_env (parent (joinpath compressed c)) disk0 = (None, disk0\<lparr>dirs := [compressed, photos]\<rparr>)"
  by (simp add: sample_env_def sample_mkdir_def parent_joinpath disk0_def compressed_not_photos)

lemma suffix_samples:
  "suffix (joinpath p ''holiday.jpg'') = ''.jpg''"
  "suffix (joinpath p ''holiday.PNG'') = ''.PNG''"
  "suffix (joinpath p ''scan.tif'') = ''.tif''"
  "suffix (joinpath p ''notes.txt'') = ''.txt''"
  using stem_suffix_split(2) [of "''holiday''" "''jpg''" p]
    stem_suffix_split(2) [of "''holiday''" "''PNG''" p]
    stem_suffix_split(2) [of "''scan''" "''tif''" p]
    stem_suffix_split(2) [of "''notes''" "''txt''" p]
  by simp_all

lemma stem_samples:
  "stem (joinpath p ''holiday.jpg'') = ''holiday''"
  "stem (joinpath p ''holiday.PNG'') = ''holiday''"
  "stem (joinpath p ''scan.tif'') = ''scan''"
  using stem_suffix_split(1) [of "''holiday''" "''jpg''" p]
    stem_suffix_split(1) [of "''holiday''" "''PNG''" p]
    stem_suffix_split(1) [of "''scan''" "''tif''" p]
  by simp_all

lemma lower_samples:
  "lower ''.jpg'' = ''.jpg''" "lower ''.PNG'' = ''.png''" "lower ''.tif'' = ''.tif''"
  "lower ''.txt'' = ''.txt''"
  by code_simp+

lemma target_size_zero: "target_size 0 (800, 600) = Inr (Some (0, 0))"
  using fl_of_int [of 800] fl_of_int [of 600]
  by (simp add: target_size_def true_div_def int_of_product_def fl_def overflows_def trunc_def)

lemma save_fresh:
  "save sample_env img p kw (disk0\<lparr>dirs := [compressed, photos]\<rparr>)
     = (if img_mode img = ''F''
        then (Some (Exception ''cannot write mode F as JPEG''), disk0\<lparr>dirs := [compressed, photos]\<rparr>)
        else (None, \<lparr>dirs = [compressed, photos], written = [(p, img, kw)]\<rparr>))"
  by (simp add: sample_env_def sample_save_def disk0_def)

lemma process_scan:
  "process_image sample_env (joinpath photos ''scan.tif'') (joinpath compressed c) 1280 65 disk0
     = (''[ERR] scan.tif: cannot write mode F as JPEG'', disk0\<lparr>dirs := [compressed, photos]\<rparr>)"
proof -
  have "img_mode scan = ''F''" by (simp add: scan_def)
  then show ?thesis
    by (simp add: process_image_def load_scan fit_scan store_def mkdir_disk0 save_fresh
        err_line_def name_joinpath)
qed

lemma exts_samples:
  "''.jpg'' \<in> set exts" "''.png'' \<in> set exts" "''.tif'' \<in> set exts" "''.txt'' \<notin> set exts"
  by (simp_all add: exts_def)

lemma joinpath_not_self: "joinpath p c \<noteq> p"
  by (simp add: joinpath_def) (metis append_self_conv list.distinct(1) path.select_convs(3) path.surjective path.update_convs(3))

lemma eligible_listing:
  assumes "is_file env = (\<lambda>p w. Inr (p \<notin> set (dirs w)))" and "dirs w = [p]"
  shows "filter (eligible env w) (listing p) = images p"
  using assms exts_samples
  by (simp add: listing_def images_def eligible_def suffix_samples lower_samples joinpath_not_self)

lemma sample_dir:
  "path_exists sample_env photos disk0 = Inr True" "is_dir sample_env photos disk0 = Inr True"
  "iterdir sample_env photos disk0 = Inr (listing photos)"
  "filter (eligible sample_env disk0) (listing photos) = images photos"
  "\<forall>p\<in>set (listing photos). lower (suffix p) \<in> set exts \<longrightarrow>
     (\<exists>b. is_file sample_env p disk0 = Inr b)"
  "ProcessPoolExecutor sample_env (cores sample_env) = None"
proof -
  show "filter (eligible sample_env disk0) (listing photos) = images photos"
    by (rule eligible_listing) (simp_all add: sample_env_def disk0_def)
qed (simp_all add: sample_env_def disk0_def listing_def cores_def)

lemma remote_dir:
  "path_exists remote_env mapped share_disk = Inr True" "is_dir remote_env mapped share_disk = Inr True"
  "iterdir remote_env mapped share_disk = Inr (listing mapped)"
  "filter (eligible remote_env share_disk) (listing mapped) = images mapped"
  "\<forall>p\<in>set (listing mapped). lower (suffix p) \<in> set exts \<longrightarrow>
     (\<exists>b. is_file remote_env p share_disk = Inr b)"
proof -
  show "filter (eligible remote_env share_disk) (listing mapped) = images mapped"
    by (rule eligible_listing) (simp_all add: remote_env_def sample_env_def share_disk_def)
qed (simp_all add: remote_env_def sample_env_def share_disk_def listing_def)

lemma is_file_samples:
  "map (\<lambda>p. is_file sample_env p disk0) (listing photos)
     = [Inr True, Inr True, Inr True, Inr True]"
  "map (\<lambda>p. is_file remote_env p share_disk) (listing mapped)
     = [Inr True, Inr True, Inr True, Inr True]"
  by (simp_all add: remote_env_def sample_env_def disk0_def share_disk_def listing_def
      joinpath_not_self)

lemma sample_files:
  "select_files sample_env disk0 (listing photos) = Inr (images photos)"
  using select_files_answers [OF sample_dir(5)] by (simp only: sample_dir(4))

lemma locality_samples:
  "\<not> is_network_path sample_env photos" "is_network_path remote_env mapped"
  by (simp_all add: is_network_path_def Let_def startswith_def str_path_def photos_def mapped_def
      remote_env_def sample_env_def backslash_def DRIVE_REMOTE_def)

lemma joinpath_eq: "joinpath p c = joinpath p c' \<longleftrightarrow> c = c'"
  by (metis name_joinpath)

lemma distinct_listing: "distinct (listing p)"
  by (simp add: listing_def joinpath_eq)

lemma process_holiday:
  "process_image sample_env (joinpath photos ''holiday.jpg'') (joinpath compressed ''holiday.jpg'') 1280 65 disk0
     = (ok_line (joinpath photos ''holiday.jpg'') (joinpath compressed ''holiday.jpg''),
        \<lparr>dirs = [compressed, photos],
         written = [stored (holiday\<lparr>img_size := (1280, 960)\<rparr>) (Some ''Exif-II*'') (Some ''sRGB'')]\<rparr>)"
proof -
  have "img_mode (holiday\<lparr>img_size := (1280, 960)\<rparr>) \<noteq> ''F''" by (simp add: holiday_def)
  then show ?thesis
    by (simp add: process_image_def load_holiday fit_holiday store_def mkdir_disk0 save_fresh
        save_args_def stored_def)
qed

lemma text_only_dir:
  "path_exists text_only_env photos disk0 = Inr True" "is_dir text_only_env photos disk0 = Inr True"
  "iterdir text_only_env photos disk0 = Inr [joinpath photos ''notes.txt'']"
  "select_files text_only_env disk0 [joinpath photos ''notes.txt''] = Inr []"
  using exts_samples
  by (simp_all add: text_only_env_def sample_env_def disk0_def suffix_samples lower_samples)

lemma sealed_text_dir:
  "path_exists sealed_text_env photos disk0 = Inr True"
  "is_dir sealed_text_env photos disk0 = Inr True"
  "iterdir sealed_text_env photos disk0 = Inr [joinpath photos ''notes.txt'']"
  "is_file sealed_text_env (joinpath photos ''notes.txt'') disk0
     = Inl (Exception ''[Errno 13] Permission denied'')"
  "select_files sealed_text_env disk0 [joinpath photos ''notes.txt''] = Inr []"
  using exts_samples
  by (simp_all add: sealed_text_env_def text_only_env_def sample_env_def disk0_def suffix_samples
      lower_samples)

lemma locked_dir:
  "path_exists locked_env photos disk0 = Inr True" "is_dir locked_env photos disk0 = Inr True"
  "iterdir locked_env photos disk0 = Inl (Exception ''[WinError 5] Access is denied'')"
  by (simp_all add: locked_env_def sample_env_def disk0_def)

lemma sealed_dir:
  "path_exists sealed_env photos disk0 = Inr True" "is_dir sealed_env photos disk0 = Inr True"
  "iterdir sealed_env photos disk0 = Inr (listing photos)"
  "select_files sealed_env disk0 (listing photos) = Inl (Exception ''[Errno 13] Permission denied'')"
  using exts_samples
  by (simp_all add: sealed_env_def sample_env_def disk0_def listing_def suffix_samples lower_samples)

lemma crowded_dir:
  "path_exists crowded_env photos disk0 = Inr True" "is_dir crowded_env photos disk0 = Inr True"
  "iterdir crowded_env photos disk0 = Inr (listing photos)"
  "select_files crowded_env disk0 (listing photos) = Inr (images photos)"
  "\<not> is_network_path crowded_env photos"
  "cores crowded_env = 64"
  "ProcessPoolExecutor crowded_env 64 = Some (Exception ''max_workers must be <= 61'')"
proof -
  have "\<forall>p\<in>set (listing photos). lower (suffix p) \<in> set exts \<longrightarrow>
     (\<exists>b. is_file crowded_env p disk0 = Inr b)"
    by (simp add: crowded_env_def sample_env_def)
  then have "select_files crowded_env disk0 (listing photos)
      = Inr (filter (eligible crowded_env disk0) (listing photos))"
    by (rule select_files_answers)
  moreover have "filter (eligible crowded_env disk0) (listing photos) = images photos"
    by (rule eligible_listing) (simp_all add: crowded_env_def sample_env_def disk0_def)
  ultimately show "select_files crowded_env disk0 (listing photos) = Inr (images photos)"
    by simp
  show "\<not> is_network_path crowded_env photos"
    by (simp add: is_network_path_def Let_def startswith_def str_path_def photos_def
        crowded_env_def sample_env_def backslash_def DRIVE_REMOTE_def)
qed (simp_all add: crowded_env_def sample_env_def disk0_def cores_def)

lemma mapped_missing: "path_exists sample_env mapped disk0 = Inr False"
  by (simp add: sample_env_def disk0_def mapped_def photos_def)

lemma hidden_dir:
  "path_exists hidden_env photos disk0 = Inl (Exception ''[Errno 13] Permission denied'')"
  by (simp add: hidden_env_def sample_env_def)

section \<open>The claims about one transform\<close>

text \<open>
  C3. The two metadata entries are read from the image as \<^verbatim>\<open>Image.open\<close> returned it,
  before it is transposed, converted or resized, and whatever those calls return, the
  keyword arguments of \<^verbatim>\<open>save\<close> carry each entry exactly when it was there and not
  empty, byte for byte, and carry nothing otherwise. What the encoder is asked to
  attach is taken for what the output holds.
\<close>

theorem metadata_carried_over:
  assumes "image_open env inp s = Inr img0"
  shows "(\<forall>img ex icc. load env inp s = Inr (img, ex, icc) \<longrightarrow>
           ex = (case img_info img0 ''exif'' of None \<Rightarrow> [] | Some b \<Rightarrow> b)
           \<and> icc = img_info img0 ''icc_profile'')
       \<and> (\<forall>img ex icc img' s1.
             load env inp s = Inr (img, ex, icc) \<and> fit env ms img = Inr img'
             \<and> mkdir env (parent out) s = (None, s1) \<longrightarrow>
             process_image env inp out ms q s =
               (case save env img' out
                       \<lparr>format = ''JPEG'', quality = q, optimize = True,
                        exif = (case img_info img0 ''exif'' of
                                  None \<Rightarrow> None | Some b \<Rightarrow> if b = [] then None else Some b),
                        icc_profile = (case img_info img0 ''icc_profile'' of
                                  None \<Rightarrow> None | Some b \<Rightarrow> if b = [] then None else Some b)\<rparr> s1 of
                  (Some e, s') \<Rightarrow> (err_line inp e, s')
                | (None, s') \<Rightarrow> (ok_line inp out, s')))"
proof -
  have cap: "ex = (case img_info img0 ''exif'' of None \<Rightarrow> [] | Some b \<Rightarrow> b)
      \<and> icc = img_info img0 ''icc_profile''"
    if "load env inp s = Inr (img, ex, icc)" for img ex icc
    using that assms by (auto simp: load_def Let_def split: sum.splits if_splits)
  have args: "save_args q (case img_info img0 ''exif'' of None \<Rightarrow> [] | Some b \<Rightarrow> b)
        (img_info img0 ''icc_profile'') =
      \<lparr>format = ''JPEG'', quality = q, optimize = True,
       exif = (case img_info img0 ''exif'' of
                 None \<Rightarrow> None | Some b \<Rightarrow> if b = [] then None else Some b),
       icc_profile = (case img_info img0 ''icc_profile'' of
                 None \<Rightarrow> None | Some b \<Rightarrow> if b = [] then None else Some b)\<rparr>"
    by (simp add: save_args_def split: option.splits)
  show ?thesis
  proof (intro conjI allI impI)
    fix img ex icc
    assume "load env inp s = Inr (img, ex, icc)"
    then show "ex = (case img_info img0 ''exif'' of None \<Rightarrow> [] | Some b \<Rightarrow> b)"
      and "icc = img_info img0 ''icc_profile''"
      using cap by simp_all
  next
    fix img ex icc img' s1
    assume a: "load env inp s = Inr (img, ex, icc) \<and> fit env ms img = Inr img'
      \<and> mkdir env (parent out) s = (None, s1)"
    then have "save_args q ex icc =
      \<lparr>format = ''JPEG'', quality = q, optimize = True,
       exif = (case img_info img0 ''exif'' of
                 None \<Rightarrow> None | Some b \<Rightarrow> if b = [] then None else Some b),
       icc_profile = (case img_info img0 ''icc_profile'' of
                 None \<Rightarrow> None | Some b \<Rightarrow> if b = [] then None else Some b)\<rparr>"
      using cap [of img ex icc] args by simp
    then show "process_image env inp out ms q s =
               (case save env img' out
                       \<lparr>format = ''JPEG'', quality = q, optimize = True,
                        exif = (case img_info img0 ''exif'' of
                                  None \<Rightarrow> None | Some b \<Rightarrow> if b = [] then None else Some b),
                        icc_profile = (case img_info img0 ''icc_profile'' of
                                  None \<Rightarrow> None | Some b \<Rightarrow> if b = [] then None else Some b)\<rparr> s1 of
                  (Some e, s') \<Rightarrow> (err_line inp e, s')
                | (None, s') \<Rightarrow> (ok_line inp out, s'))"
      using a by (simp add: process_image_def store_def)
  qed
qed

theorem metadata_carried_over_witness:
  "image_open sample_env (joinpath photos ''holiday.jpg'') disk0 = Inr holiday
   \<and> img_info holiday ''exif'' = Some ''Exif-II*'' \<and> img_info holiday ''icc_profile'' = Some ''sRGB''
   \<and> process_image sample_env (joinpath photos ''holiday.jpg'') (joinpath compressed ''holiday.jpg'') 1280 65 disk0
       = (''[OK] holiday.jpg -> holiday.jpg'',
          \<lparr>dirs = [compressed, photos],
           written = [stored (holiday\<lparr>img_size := (1280, 960)\<rparr>) (Some ''Exif-II*'') (Some ''sRGB'')]\<rparr>)
   \<and> image_open sample_env (joinpath photos ''holiday.PNG'') disk0 = Inr logo
   \<and> img_info logo ''exif'' = None \<and> img_info logo ''icc_profile'' = Some []
   \<and> process_image sample_env (joinpath photos ''holiday.PNG'') (joinpath compressed ''holiday.jpg'') 1280 65 disk0
       = (''[OK] holiday.PNG -> holiday.jpg'',
          \<lparr>dirs = [compressed, photos], written = [stored (logo\<lparr>img_mode := ''RGB''\<rparr>) None None]\<rparr>)"
proof -
  have o: "image_open sample_env (joinpath photos ''holiday.jpg'') disk0 = Inr holiday"
    "image_open sample_env (joinpath photos ''holiday.PNG'') disk0 = Inr logo"
    by (simp_all add: sample_env_def sample_open_def name_joinpath)
  have i: "img_info holiday ''exif'' = Some ''Exif-II*''" "img_info holiday ''icc_profile'' = Some ''sRGB''"
    "img_info logo ''exif'' = None" "img_info logo ''icc_profile'' = Some []"
    by (simp_all add: holiday_def logo_def)
  have sv: "save sample_env img p kw (disk0\<lparr>dirs := [compressed, photos]\<rparr>)
      = (if img_mode img = ''F'' then (Some (Exception ''cannot write mode F as JPEG''), disk0\<lparr>dirs := [compressed, photos]\<rparr>)
         else (None, \<lparr>dirs = [compressed, photos], written = [(p, img, kw)]\<rparr>))" for img p kw
    by (simp add: sample_env_def sample_save_def disk0_def)
  have m: "img_mode (holiday\<lparr>img_size := (1280, 960)\<rparr>) \<noteq> ''F''" "img_mode (logo\<lparr>img_mode := ''RGB''\<rparr>) \<noteq> ''F''"
    by (simp_all add: holiday_def)
  show ?thesis
    using metadata_carried_over [OF o(1), of 1280 "joinpath compressed ''holiday.jpg''" 65]
      metadata_carried_over [OF o(2), of 1280 "joinpath compressed ''holiday.jpg''" 65]
      load_holiday [of disk0] load_logo [of disk0] fit_holiday fit_logo [of sample_env]
      mkdir_disk0 [of "''holiday.jpg''"] o i m
    by (simp add: sv ok_line_def name_joinpath stored_def)
qed

text \<open>
  C4. Whichever step raises (open, transpose, convert, the resize arithmetic, resize,
  mkdir, save), \<open>process_image\<close> returns the failure line with the name of the input
  and the text of the exception; it returns a line in every case, so the loop over
  the files reaches every file: the finished files of a sequential run are the files
  given, and those of the pool are the tasks given.
\<close>

theorem process_image_catches:
  "(\<forall>e. image_open env inp s = Inl e \<longrightarrow>
        process_image env inp out ms q s = (err_line inp e, s))
   \<and> (\<forall>img0 e. image_open env inp s = Inr img0 \<and> exif_transpose env img0 = Inl e \<longrightarrow>
        process_image env inp out ms q s = (err_line inp e, s))
   \<and> (\<forall>img0 img1 e. image_open env inp s = Inr img0 \<and> exif_transpose env img0 = Inr img1
        \<and> img_mode img1 \<in> {''RGBA'', ''LA'', ''P''} \<and> convert env img1 ''RGB'' = Inl e \<longrightarrow>
        process_image env inp out ms q s = (err_line inp e, s))
   \<and> (\<forall>img ex icc e. load env inp s = Inr (img, ex, icc) \<and> target_size ms (img_size img) = Inl e \<longrightarrow>
        process_image env inp out ms q s = (err_line inp e, s))
   \<and> (\<forall>img ex icc sz e. load env inp s = Inr (img, ex, icc)
        \<and> target_size ms (img_size img) = Inr (Some sz) \<and> resize env img sz = Inl e \<longrightarrow>
        process_image env inp out ms q s = (err_line inp e, s))
   \<and> (\<forall>img ex icc img' e s1. load env inp s = Inr (img, ex, icc) \<and> fit env ms img = Inr img'
        \<and> mkdir env (parent out) s = (Some e, s1) \<longrightarrow>
        process_image env inp out ms q s = (err_line inp e, s1))
   \<and> (\<forall>img ex icc img' e s1 s2. load env inp s = Inr (img, ex, icc) \<and> fit env ms img = Inr img'
        \<and> mkdir env (parent out) s = (None, s1)
        \<and> save env img' out (save_args q ex icc) s1 = (Some e, s2) \<longrightarrow>
        process_image env inp out ms q s = (err_line inp e, s2))
   \<and> (fst (process_image env inp out ms q s) = ok_line inp out
        \<or> (\<exists>e. fst (process_image env inp out ms q s) = err_line inp e))
   \<and> finished (fst (run_sequential env d ms q ps s)) = ps
   \<and> finished (fst (collect env ms q ts s)) = map fst ts"
proof (intro conjI allI impI)
  show "fst (process_image env inp out ms q s) = ok_line inp out
        \<or> (\<exists>e. fst (process_image env inp out ms q s) = err_line inp e)"
    by (rule process_image_line)
  show "finished (fst (run_sequential env d ms q ps s)) = ps"
    by (rule finished_run_sequential)
  show "finished (fst (collect env ms q ts s)) = map fst ts"
    by (rule finished_collect)
qed (auto simp: process_image_def load_def fit_def store_def Let_def)

theorem process_image_catches_witness:
  "image_open sample_env (joinpath photos ''notes.txt'') disk0
     = Inl (Exception ''cannot identify image file'')
   \<and> process_image sample_env (joinpath photos ''notes.txt'') (joinpath compressed ''notes.jpg'') 1280 65 disk0
       = (''[ERR] notes.txt: cannot identify image file'', disk0)
   \<and> load sample_env (joinpath photos ''scan.tif'') disk0 = Inr (scan, [], None)
   \<and> target_size 0 (img_size scan) = Inr (Some (0, 0))
   \<and> resize sample_env scan (0, 0) = Inl (Exception ''height and width must be > 0'')
   \<and> process_image sample_env (joinpath photos ''scan.tif'') (joinpath compressed ''scan.jpg'') 0 65 disk0
       = (''[ERR] scan.tif: height and width must be > 0'', disk0)
   \<and> fit sample_env 1280 scan = Inr scan
   \<and> mkdir sample_env (parent (joinpath compressed ''scan.jpg'')) disk0
       = (None, disk0\<lparr>dirs := [compressed, photos]\<rparr>)
   \<and> save sample_env scan (joinpath compressed ''scan.jpg'') (save_args 65 [] None)
         (disk0\<lparr>dirs := [compressed, photos]\<rparr>)
       = (Some (Exception ''cannot write mode F as JPEG''), disk0\<lparr>dirs := [compressed, photos]\<rparr>)
   \<and> process_image sample_env (joinpath photos ''scan.tif'') (joinpath compressed ''scan.jpg'') 1280 65 disk0
       = (''[ERR] scan.tif: cannot write mode F as JPEG'', disk0\<lparr>dirs := [compressed, photos]\<rparr>)
   \<and> finished (fst (run_sequential sample_env compressed 1280 65
         [joinpath photos ''notes.txt'', joinpath photos ''scan.tif''] disk0))
       = [joinpath photos ''notes.txt'', joinpath photos ''scan.tif'']"
proof -
  have o: "image_open sample_env (joinpath photos ''notes.txt'') disk0
     = Inl (Exception ''cannot identify image file'')"
    by (simp add: sample_env_def sample_open_def name_joinpath)
  have t: "target_size 0 (img_size scan) = Inr (Some (0, 0))"
    by (simp add: scan_def target_size_zero)
  have r: "resize sample_env scan (0, 0) = Inl (Exception ''height and width must be > 0'')"
    by (simp add: sample_env_def sample_resize_def)
  have sv: "save sample_env scan (joinpath compressed ''scan.jpg'') (save_args 65 [] None)
         (disk0\<lparr>dirs := [compressed, photos]\<rparr>)
       = (Some (Exception ''cannot write mode F as JPEG''), disk0\<lparr>dirs := [compressed, photos]\<rparr>)"
    by (simp add: save_fresh scan_def)
  note c1 = process_image_catches [where env = sample_env and s = disk0 and ms = 1280 and q = 65
      and inp = "joinpath photos ''notes.txt''" and out = "joinpath compressed ''notes.jpg''"
      and d = compressed and ps = "[joinpath photos ''notes.txt'', joinpath photos ''scan.tif'']"
      and ts = "[]"]
  note c2 = process_image_catches [where env = sample_env and s = disk0 and ms = 0 and q = 65
      and inp = "joinpath photos ''scan.tif''" and out = "joinpath compressed ''scan.jpg''"
      and d = compressed and ps = "[]" and ts = "[]"]
  note c3 = process_image_catches [where env = sample_env and s = disk0 and ms = 1280 and q = 65
      and inp = "joinpath photos ''scan.tif''" and out = "joinpath compressed ''scan.jpg''"
      and d = compressed and ps = "[]" and ts = "[]"]
  have n: "process_image sample_env (joinpath photos ''notes.txt'') (joinpath compressed ''notes.jpg'') 1280 65 disk0
       = (''[ERR] notes.txt: cannot identify image file'', disk0)"
    using c1 o by (simp add: err_line_def name_joinpath)
  have z: "process_image sample_env (joinpath photos ''scan.tif'') (joinpath compressed ''scan.jpg'') 0 65 disk0
       = (''[ERR] scan.tif: height and width must be > 0'', disk0)"
    using c2 load_scan [of disk0] t r by (simp add: err_line_def name_joinpath)
  have f: "process_image sample_env (joinpath photos ''scan.tif'') (joinpath compressed ''scan.jpg'') 1280 65 disk0
       = (''[ERR] scan.tif: cannot write mode F as JPEG'', disk0\<lparr>dirs := [compressed, photos]\<rparr>)"
    using c3 load_scan [of disk0] fit_scan [of sample_env] mkdir_disk0 [of "''scan.jpg''"] sv
    by (simp add: err_line_def name_joinpath)
  show ?thesis
    using c1 o n z f t r sv load_scan [of disk0] fit_scan [of sample_env] mkdir_disk0 [of "''scan.jpg''"]
    by simp
qed

text \<open>
  C9, as amended. A transform that fails before line 74 leaves the file system as it
  was. One that succeeds leaves it as one \<^verbatim>\<open>mkdir\<close> of the output's parent and one
  \<^verbatim>\<open>save\<close> at the output path made it. One that fails in \<^verbatim>\<open>mkdir\<close> or in \<^verbatim>\<open>save\<close>
  leaves what that call left: the directory that line 74 created stays when line 80
  raises.
\<close>

theorem side_effects_of_process_image:
  "(\<forall>e. load env inp s = Inl e \<longrightarrow> process_image env inp out ms q s = (err_line inp e, s))
   \<and> (\<forall>img ex icc e. load env inp s = Inr (img, ex, icc) \<and> fit env ms img = Inl e \<longrightarrow>
        process_image env inp out ms q s = (err_line inp e, s))
   \<and> (\<forall>img ex icc img' s1 s2. load env inp s = Inr (img, ex, icc) \<and> fit env ms img = Inr img'
        \<and> mkdir env (parent out) s = (None, s1)
        \<and> save env img' out (save_args q ex icc) s1 = (None, s2) \<longrightarrow>
        process_image env inp out ms q s = (ok_line inp out, s2))
   \<and> (\<forall>img ex icc img' e s1. load env inp s = Inr (img, ex, icc) \<and> fit env ms img = Inr img'
        \<and> mkdir env (parent out) s = (Some e, s1) \<longrightarrow>
        process_image env inp out ms q s = (err_line inp e, s1))
   \<and> (\<forall>img ex icc img' e s1 s2. load env inp s = Inr (img, ex, icc) \<and> fit env ms img = Inr img'
        \<and> mkdir env (parent out) s = (None, s1)
        \<and> save env img' out (save_args q ex icc) s1 = (Some e, s2) \<longrightarrow>
        process_image env inp out ms q s = (err_line inp e, s2))"
  by (auto simp: process_image_def store_def)

theorem side_effects_of_process_image_witness:
  "load sample_env (joinpath photos ''notes.txt'') disk0 = Inl (Exception ''cannot identify image file'')
   \<and> snd (process_image sample_env (joinpath photos ''notes.txt'') (joinpath compressed ''notes.jpg'') 1280 65 disk0)
       = disk0
   \<and> load sample_env (joinpath photos ''holiday.jpg'') disk0 = Inr (holiday, ''Exif-II*'', Some ''sRGB'')
   \<and> fit sample_env 1280 holiday = Inr (holiday\<lparr>img_size := (1280, 960)\<rparr>)
   \<and> mkdir sample_env (parent (joinpath compressed ''holiday.jpg'')) disk0
       = (None, disk0\<lparr>dirs := [compressed, photos]\<rparr>)
   \<and> process_image sample_env (joinpath photos ''holiday.jpg'') (joinpath compressed ''holiday.jpg'') 1280 65 disk0
       = (''[OK] holiday.jpg -> holiday.jpg'',
          \<lparr>dirs = [compressed, photos],
           written = [stored (holiday\<lparr>img_size := (1280, 960)\<rparr>) (Some ''Exif-II*'') (Some ''sRGB'')]\<rparr>)
   \<and> load sample_env (joinpath photos ''scan.tif'') disk0 = Inr (scan, [], None)
   \<and> fit sample_env 1280 scan = Inr scan
   \<and> process_image sample_env (joinpath photos ''scan.tif'') (joinpath compressed ''scan.jpg'') 1280 65 disk0
       = (''[ERR] scan.tif: cannot write mode F as JPEG'', disk0\<lparr>dirs := [compressed, photos]\<rparr>)"
proof -
  note e1 = side_effects_of_process_image [where env = sample_env and s = disk0 and ms = 1280 and q = 65
      and inp = "joinpath photos ''notes.txt''" and out = "joinpath compressed ''notes.jpg''"]
  note e2 = side_effects_of_process_image [where env = sample_env and s = disk0 and ms = 1280 and q = 65
      and inp = "joinpath photos ''holiday.jpg''" and out = "joinpath compressed ''holiday.jpg''"]
  note e3 = side_effects_of_process_image [where env = sample_env and s = disk0 and ms = 1280 and q = 65
      and inp = "joinpath photos ''scan.tif''" and out = "joinpath compressed ''scan.jpg''"]
  have m: "img_mode (holiday\<lparr>img_size := (1280, 960)\<rparr>) \<noteq> ''F''" "img_mode scan = ''F''"
    by (simp_all add: holiday_def scan_def)
  have a: "snd (process_image sample_env (joinpath photos ''notes.txt'') (joinpath compressed ''notes.jpg'') 1280 65 disk0)
       = disk0"
    using e1 load_notes [of disk0] by simp
  have b: "process_image sample_env (joinpath photos ''holiday.jpg'') (joinpath compressed ''holiday.jpg'') 1280 65 disk0
       = (''[OK] holiday.jpg -> holiday.jpg'',
          \<lparr>dirs = [compressed, photos],
           written = [stored (holiday\<lparr>img_size := (1280, 960)\<rparr>) (Some ''Exif-II*'') (Some ''sRGB'')]\<rparr>)"
    using e2 load_holiday [of disk0] fit_holiday mkdir_disk0 [of "''holiday.jpg''"] m
    by (simp add: save_fresh save_args_def stored_def ok_line_def name_joinpath)
  have c: "process_image sample_env (joinpath photos ''scan.tif'') (joinpath compressed ''scan.jpg'') 1280 65 disk0
       = (''[ERR] scan.tif: cannot write mode F as JPEG'', disk0\<lparr>dirs := [compressed, photos]\<rparr>)"
    using e3 load_scan [of disk0] fit_scan [of sample_env] mkdir_disk0 [of "''scan.jpg''"] m
    by (simp add: save_fresh err_line_def name_joinpath)
  show ?thesis
    using a b c load_notes [of disk0] load_holiday [of disk0] load_scan [of disk0] fit_holiday
      fit_scan [of sample_env] mkdir_disk0 [of "''holiday.jpg''"]
    by simp
qed

text \<open>
  The claim as stated has a failed transform create nothing. The scan of the sample
  folder is in a mode that \<^verbatim>\<open>save\<close> refuses: the transform reports the failure, and
  the directory \<^verbatim>\<open>compressed\<close>, which was not there before, is there after.
\<close>

theorem failed_save_leaves_directory:
  "fst (process_image sample_env (joinpath photos ''scan.tif'') (joinpath compressed ''scan.jpg'') 1280 65 disk0)
     = ''[ERR] scan.tif: cannot write mode F as JPEG''
   \<and> dirs disk0 = [photos]
   \<and> dirs (snd (process_image sample_env (joinpath photos ''scan.tif'') (joinpath compressed ''scan.jpg'') 1280 65 disk0))
       = [compressed, photos]
   \<and> compressed \<noteq> photos"
  by (simp add: process_scan compressed_not_photos) (simp add: disk0_def)

section \<open>The claim about the locality classifier\<close>

text \<open>
  C7. A path whose string starts with two backslashes is a network path, whatever the
  probe would say. Otherwise the drive (pathlib's, or the first two characters when the
  second is a colon) is probed: the answer is network exactly when the probe returns 4,
  and local when the probe raises or when there is no drive. The function is total and
  returns a truth value only, so it raises nothing and changes nothing.
\<close>

theorem is_network_path_cases:
  "(startswith (str_path (sep env) p) [backslash, backslash] \<longrightarrow> is_network_path env p)
   \<and> (\<not> startswith (str_path (sep env) p) [backslash, backslash] \<and> drive p \<noteq> [] \<longrightarrow>
        (\<forall>t. GetDriveTypeW env (drive p @ [backslash]) = Inr t \<longrightarrow>
               (is_network_path env p \<longleftrightarrow> t = 4))
        \<and> (\<forall>e. GetDriveTypeW env (drive p @ [backslash]) = Inl e \<longrightarrow> \<not> is_network_path env p))
   \<and> (\<not> startswith (str_path (sep env) p) [backslash, backslash] \<and> drive p = []
        \<and> 2 \<le> length (str_path (sep env) p) \<and> str_path (sep env) p ! 1 = CHR '':'' \<longrightarrow>
        (\<forall>t. GetDriveTypeW env (take 2 (str_path (sep env) p) @ [backslash]) = Inr t \<longrightarrow>
               (is_network_path env p \<longleftrightarrow> t = 4))
        \<and> (\<forall>e. GetDriveTypeW env (take 2 (str_path (sep env) p) @ [backslash]) = Inl e \<longrightarrow>
               \<not> is_network_path env p))
   \<and> (\<not> startswith (str_path (sep env) p) [backslash, backslash] \<and> drive p = []
        \<and> \<not> (2 \<le> length (str_path (sep env) p) \<and> str_path (sep env) p ! 1 = CHR '':'') \<longrightarrow>
        \<not> is_network_path env p)"
  by (auto simp: is_network_path_def Let_def DRIVE_REMOTE_def split: sum.splits)

theorem is_network_path_cases_witness:
  "startswith (str_path (sep sample_env) unc_share) [backslash, backslash]
   \<and> is_network_path sample_env unc_share
   \<and> \<not> startswith (str_path (sep remote_env) mapped) [backslash, backslash]
   \<and> drive mapped \<noteq> []
   \<and> GetDriveTypeW remote_env (drive mapped @ [backslash]) = Inr 4
   \<and> is_network_path remote_env mapped
   \<and> GetDriveTypeW remote_env (drive photos @ [backslash]) = Inr 3
   \<and> \<not> is_network_path remote_env photos
   \<and> GetDriveTypeW posix_env (drive mapped @ [backslash])
       = Inl (Exception ''module ctypes has no attribute windll'')
   \<and> \<not> is_network_path posix_env mapped
   \<and> drive home = [] \<and> \<not> is_network_path posix_env home"
proof -
  have a: "startswith (str_path (sep sample_env) unc_share) [backslash, backslash]"
    by (simp add: startswith_def str_path_def unc_share_def sample_env_def)
  have b: "\<not> startswith (str_path (sep remote_env) mapped) [backslash, backslash]"
    by (simp add: startswith_def str_path_def mapped_def remote_env_def sample_env_def backslash_def)
  have c: "\<not> startswith (str_path (sep remote_env) photos) [backslash, backslash]"
    by (simp add: startswith_def str_path_def photos_def remote_env_def sample_env_def backslash_def)
  have d: "\<not> startswith (str_path (sep posix_env) mapped) [backslash, backslash]"
    by (simp add: startswith_def str_path_def mapped_def posix_env_def sample_env_def backslash_def)
  have e: "\<not> startswith (str_path (sep posix_env) home) [backslash, backslash]"
    "\<not> (2 \<le> length (str_path (sep posix_env) home) \<and> str_path (sep posix_env) home ! 1 = CHR '':'')"
    by (simp_all add: startswith_def str_path_def home_def posix_env_def sample_env_def backslash_def)
  have g: "GetDriveTypeW remote_env (drive mapped @ [backslash]) = Inr 4"
    "GetDriveTypeW remote_env (drive photos @ [backslash]) = Inr 3"
    "GetDriveTypeW posix_env (drive mapped @ [backslash])
       = Inl (Exception ''module ctypes has no attribute windll'')"
    by (simp_all add: remote_env_def posix_env_def sample_env_def mapped_def photos_def)
  have h: "drive mapped \<noteq> []" "drive photos \<noteq> []" "drive home = []"
    by (simp_all add: mapped_def photos_def home_def)
  show ?thesis
    using is_network_path_cases [of sample_env unc_share]
      is_network_path_cases [of remote_env mapped]
      is_network_path_cases [of remote_env photos]
      is_network_path_cases [of posix_env mapped]
      is_network_path_cases [of posix_env home]
      a b c d e g h
    by simp
qed

section \<open>The claims about a run\<close>

text \<open>
  C5. When the folder is listed, every \<^verbatim>\<open>is_file\<close> test of line 103 answers, and
  the pool, where one is needed, is constructed, the files a run finishes are the
  children that are regular files with an extension of \<open>exts\<close>, compared in lower
  case: each of them once, under the sequential strategy in the order of the listing,
  under the pool in the order of completion. One line is printed for each, between the
  line that names the strategy and the line with the elapsed time.
\<close>

theorem every_eligible_file_once:
  assumes "path_exists env d s = Inr True" and "is_dir env d s = Inr True"
    and "iterdir env d s = Inr children"
    and "\<forall>p\<in>set children. lower (suffix p) \<in> set exts \<longrightarrow> (\<exists>b. is_file env p s = Inr b)"
    and "filter (eligible env s) children = [] \<or> is_network_path env d
         \<or> ProcessPoolExecutor env (cores env) = None"
  shows "mset (finished (trace (main env d ms q s))) = mset (filter (eligible env s) children)
       \<and> set (finished (trace (main env d ms q s)))
           = {p \<in> set children. lower (suffix p) \<in> set exts \<and> is_file env p s = Inr True}
       \<and> length (finished (trace (main env d ms q s))) = length (filter (eligible env s) children)
       \<and> (distinct children \<longrightarrow> distinct (finished (trace (main env d ms q s))))
       \<and> (is_network_path env d \<longrightarrow>
            finished (trace (main env d ms q s)) = filter (eligible env s) children)
       \<and> (filter (eligible env s) children \<noteq> [] \<longrightarrow>
            length (printed (trace (main env d ms q s)))
              = length (filter (eligible env s) children) + 2)
       \<and> set exts = {''.jpg'', ''.jpeg'', ''.png'', ''.tif'', ''.tiff'', ''.webp'', ''.heic'',
                      ''.heif'', ''.bmp''}"
proof -
  let ?f = "finished (trace (main env d ms q s))"
  let ?files = "filter (eligible env s) children"
  have sel: "select_files env s children = Inr ?files"
    using assms(4) by (rule select_files_answers)
  note listed = assms(1-3) sel
  have m: "mset ?f = mset ?files" using listed assms(5) by (rule finished_main(1))
  have "set ?f = set ?files" using m by (rule mset_eq_setD)
  then have s: "set ?f = {p \<in> set children. lower (suffix p) \<in> set exts \<and> is_file env p s = Inr True}"
    by (auto simp: eligible_def)
  have l: "length ?f = length ?files" using m by (rule mset_eq_length)
  have d: "distinct ?f" if "distinct children"
  proof -
    have "distinct ?files" using that by simp
    then show ?thesis using m by (metis mset_eq_imp_distinct_iff)
  qed
  have n: "?f = ?files" if "is_network_path env d"
    using listed assms(5) that by (rule finished_main(2))
  have p: "length (printed (trace (main env d ms q s))) = length ?files + 2" if "?files \<noteq> []"
  proof -
    from that assms(5)
    have "is_network_path env d \<or> ProcessPoolExecutor env (cores env) = None" by simp
    with listed show ?thesis using that by (rule length_printed_main)
  qed
  have e: "set exts = {''.jpg'', ''.jpeg'', ''.png'', ''.tif'', ''.tiff'', ''.webp'', ''.heic'',
                      ''.heif'', ''.bmp''}"
    by (simp add: exts_def)
  show ?thesis
    using m s l d n p e by (intro conjI impI) simp_all
qed

theorem every_eligible_file_once_witness:
  "path_exists sample_env photos disk0 = Inr True \<and> is_dir sample_env photos disk0 = Inr True
   \<and> iterdir sample_env photos disk0 = Inr (listing photos)
   \<and> map (\<lambda>p. is_file sample_env p disk0) (listing photos)
       = [Inr True, Inr True, Inr True, Inr True]
   \<and> ProcessPoolExecutor sample_env (cores sample_env) = None
   \<and> filter (eligible sample_env disk0) (listing photos) = images photos
   \<and> mset (finished (trace (main sample_env photos 1280 65 disk0))) = mset (images photos)
   \<and> length (finished (trace (main sample_env photos 1280 65 disk0))) = 3
   \<and> distinct (listing photos)
   \<and> distinct (finished (trace (main sample_env photos 1280 65 disk0)))
   \<and> length (printed (trace (main sample_env photos 1280 65 disk0))) = 5
   \<and> path_exists remote_env mapped share_disk = Inr True
   \<and> is_dir remote_env mapped share_disk = Inr True
   \<and> iterdir remote_env mapped share_disk = Inr (listing mapped)
   \<and> map (\<lambda>p. is_file remote_env p share_disk) (listing mapped)
       = [Inr True, Inr True, Inr True, Inr True]
   \<and> is_network_path remote_env mapped
   \<and> finished (trace (main remote_env mapped 1280 65 share_disk)) = images mapped"
proof -
  have pool: "filter (eligible sample_env disk0) (listing photos) = [] \<or> is_network_path sample_env photos
         \<or> ProcessPoolExecutor sample_env (cores sample_env) = None"
    using sample_dir(6) by simp
  have net: "filter (eligible remote_env share_disk) (listing mapped) = [] \<or> is_network_path remote_env mapped
         \<or> ProcessPoolExecutor remote_env (cores remote_env) = None"
    using locality_samples(2) by simp
  show ?thesis
    using every_eligible_file_once [OF sample_dir(1-3) sample_dir(5) pool, of 1280 65]
      every_eligible_file_once [OF remote_dir(1-3) remote_dir(5) net, of 1280 65]
      sample_dir(1-4,6) remote_dir(1-4) locality_samples distinct_listing [of photos]
      is_file_samples
    by (simp add: images_def)
qed

text \<open>
  C6. For a network folder the events of the run are the sequential loop's and
  nothing else: no pool, no submission, the files in the order of the listing, never
  two transforms under way, each result printed before the next file is started. For
  a local folder one pool is created, of \<open>cores env\<close> workers, which is the processor
  count, or 1 when there is none, and every file is submitted to it. The folder is one
  that was listed and whose \<^verbatim>\<open>is_file\<close> tests answered, with a file to process, and
  the constructor of the pool returned.
\<close>

theorem strategy_by_locality:
  assumes "path_exists env d s = Inr True" and "is_dir env d s = Inr True"
    and "iterdir env d s = Inr children"
    and "\<forall>p\<in>set children. lower (suffix p) \<in> set exts \<longrightarrow> (\<exists>b. is_file env p s = Inr b)"
    and "filter (eligible env s) children \<noteq> []"
    and "is_network_path env d \<or> ProcessPoolExecutor env (cores env) = None"
  shows "(is_network_path env d \<longrightarrow>
            trace (main env d ms q s) =
              Print (''Mode: Network path detected. Processing sequentially in: ''
                     @ str_path (sep env) d)
              # fst (run_sequential env (joinpath d ''compressed'') ms q
                       (filter (eligible env s) children) s)
              @ [Print (''Total elapsed time: '' @ elapsed env @ '' seconds'')]
            \<and> strictly_sequential (filter (eligible env s) children)
                 (fst (run_sequential env (joinpath d ''compressed'') ms q
                         (filter (eligible env s) children) s))
            \<and> pools (trace (main env d ms q s)) = []
            \<and> submitted (trace (main env d ms q s)) = []
            \<and> (\<forall>n. 0 \<le> in_flight (take n (trace (main env d ms q s)))
                    \<and> in_flight (take n (trace (main env d ms q s))) \<le> 1))
       \<and> (\<not> is_network_path env d \<longrightarrow>
            pools (trace (main env d ms q s)) = [cores env]
            \<and> submitted (trace (main env d ms q s)) = filter (eligible env s) children
            \<and> 1 \<le> cores env
            \<and> (\<forall>n. cpu_count env = Some n \<and> 0 < n \<longrightarrow> cores env = n)
            \<and> (cpu_count env = None \<longrightarrow> cores env = 1))"
proof (intro conjI impI allI)
  let ?fs = "filter (eligible env s) children"
  let ?evs = "fst (run_sequential env (joinpath d ''compressed'') ms q ?fs s)"
  have sel: "select_files env s children = Inr ?fs"
    using assms(4) by (rule select_files_answers)
  note listed = assms(1-3) sel
  have seq: "strictly_sequential ?fs ?evs" by (rule strictly_sequential_run)
  {
    assume n: "is_network_path env d"
    then show t: "trace (main env d ms q s) =
              Print (''Mode: Network path detected. Processing sequentially in: ''
                     @ str_path (sep env) d)
              # ?evs @ [Print (''Total elapsed time: '' @ elapsed env @ '' seconds'')]"
      using assms(5) by (simp add: main_listed [OF listed] Let_def)
    show "strictly_sequential ?fs ?evs" by (rule seq)
    show "pools (trace (main env d ms q s)) = []"
      by (simp add: t pools_append pools_run_sequential)
    show "submitted (trace (main env d ms q s)) = []"
      by (simp add: t submitted_append submitted_run_sequential)
    fix k
    show "0 \<le> in_flight (take k (trace (main env d ms q s)))"
      and "in_flight (take k (trace (main env d ms q s))) \<le> 1"
      using in_flight_framed [OF seq, of k] by (simp_all only: t)
  }
  {
    assume l: "\<not> is_network_path env d"
    with assms(6) have "ProcessPoolExecutor env (cores env) = None" by simp
    with l have t: "trace (main env d ms q s) =
        Print (''Mode: Local drive. Processing in parallel with ''
               @ str_nat (cores env) @ '' cores in: '' @ str_path (sep env) d)
        # fst (run_parallel env (cores env) (joinpath d ''compressed'') ms q ?fs s)
        @ [Print (''Total elapsed time: '' @ elapsed env @ '' seconds'')]"
      using assms(5) by (simp add: main_listed [OF listed] Let_def)
    show "pools (trace (main env d ms q s)) = [cores env]"
      by (simp add: t run_parallel_trace pools_append pools_collect pools_Submitted)
    show "submitted (trace (main env d ms q s)) = ?fs"
      by (simp add: t run_parallel_trace submitted_append submitted_collect submitted_Submitted)
  }
  show "1 \<le> cores env" by (rule cores_positive)
  show "cores env = n" if "cpu_count env = Some n \<and> 0 < n" for n
    using that by (simp add: cores_def)
  show "cores env = 1" if "cpu_count env = None"
    using that by (simp add: cores_def)
qed

theorem strategy_by_locality_witness:
  "path_exists sample_env photos disk0 = Inr True \<and> is_dir sample_env photos disk0 = Inr True
   \<and> iterdir sample_env photos disk0 = Inr (listing photos)
   \<and> map (\<lambda>p. is_file sample_env p disk0) (listing photos)
       = [Inr True, Inr True, Inr True, Inr True]
   \<and> filter (eligible sample_env disk0) (listing photos) \<noteq> []
   \<and> \<not> is_network_path sample_env photos
   \<and> ProcessPoolExecutor sample_env (cores sample_env) = None
   \<and> cpu_count sample_env = Some 4
   \<and> pools (trace (main sample_env photos 1280 65 disk0)) = [4]
   \<and> submitted (trace (main sample_env photos 1280 65 disk0)) = images photos
   \<and> path_exists remote_env mapped share_disk = Inr True
   \<and> is_dir remote_env mapped share_disk = Inr True
   \<and> iterdir remote_env mapped share_disk = Inr (listing mapped)
   \<and> map (\<lambda>p. is_file remote_env p share_disk) (listing mapped)
       = [Inr True, Inr True, Inr True, Inr True]
   \<and> filter (eligible remote_env share_disk) (listing mapped) \<noteq> []
   \<and> is_network_path remote_env mapped
   \<and> pools (trace (main remote_env mapped 1280 65 share_disk)) = []
   \<and> submitted (trace (main remote_env mapped 1280 65 share_disk)) = []
   \<and> strictly_sequential (images mapped)
        (fst (run_sequential remote_env (joinpath mapped ''compressed'') 1280 65 (images mapped) share_disk))
   \<and> in_flight (take 2 (trace (main remote_env mapped 1280 65 share_disk))) = 1
   \<and> in_flight (take 4 (trace (main remote_env mapped 1280 65 share_disk))) = 0"
proof -
  have ne: "filter (eligible sample_env disk0) (listing photos) \<noteq> []"
    "filter (eligible remote_env share_disk) (listing mapped) \<noteq> []"
    by (simp_all only: sample_dir(4) remote_dir(4)) (simp_all add: images_def)
  have c: "cpu_count sample_env = Some 4" by (simp add: sample_env_def)
  have pool: "is_network_path sample_env photos \<or> ProcessPoolExecutor sample_env (cores sample_env) = None"
    "is_network_path remote_env mapped \<or> ProcessPoolExecutor remote_env (cores remote_env) = None"
    using sample_dir(6) locality_samples(2) by simp_all
  note loc = strategy_by_locality [OF sample_dir(1-3) sample_dir(5) ne(1) pool(1), of 1280 65]
  note net = strategy_by_locality [OF remote_dir(1-3) remote_dir(5) ne(2) pool(2), of 1280 65]
  note locB = loc [THEN conjunct2, THEN mp, OF locality_samples(1)]
  note netA = net [THEN conjunct1, THEN mp, OF locality_samples(2)]
  have "cores sample_env = 4"
    using locB [THEN conjunct2, THEN conjunct2, THEN conjunct2, THEN conjunct1, THEN spec, of 4] c
    by simp
  then have l: "pools (trace (main sample_env photos 1280 65 disk0)) = [4]"
    "submitted (trace (main sample_env photos 1280 65 disk0)) = images photos"
    using locB [THEN conjunct1] locB [THEN conjunct2, THEN conjunct1]
    by (simp_all only: sample_dir(4))
  have n: "pools (trace (main remote_env mapped 1280 65 share_disk)) = []"
    "submitted (trace (main remote_env mapped 1280 65 share_disk)) = []"
    "strictly_sequential (images mapped)
        (fst (run_sequential remote_env (joinpath mapped ''compressed'') 1280 65
           (images mapped) share_disk))"
    "trace (main remote_env mapped 1280 65 share_disk) =
      Print (''Mode: Network path detected. Processing sequentially in: ''
             @ str_path (sep remote_env) mapped)
      # fst (run_sequential remote_env (joinpath mapped ''compressed'') 1280 65
           (images mapped) share_disk)
      @ [Print (''Total elapsed time: '' @ elapsed remote_env @ '' seconds'')]"
    using netA [THEN conjunct2, THEN conjunct2, THEN conjunct1]
      netA [THEN conjunct2, THEN conjunct2, THEN conjunct2, THEN conjunct1]
      netA [THEN conjunct2, THEN conjunct1]
      netA [THEN conjunct1]
    by (simp_all only: remote_dir(4))
  have f: "in_flight (take 2 (trace (main remote_env mapped 1280 65 share_disk))) = 1"
    "in_flight (take 4 (trace (main remote_env mapped 1280 65 share_disk))) = 0"
    by (simp_all add: n(4) images_def split_beta Let_def)
  have hyps: "path_exists sample_env photos disk0 = Inr True \<and> is_dir sample_env photos disk0 = Inr True
   \<and> iterdir sample_env photos disk0 = Inr (listing photos)
   \<and> map (\<lambda>p. is_file sample_env p disk0) (listing photos)
       = [Inr True, Inr True, Inr True, Inr True]
   \<and> path_exists remote_env mapped share_disk = Inr True
   \<and> is_dir remote_env mapped share_disk = Inr True
   \<and> iterdir remote_env mapped share_disk = Inr (listing mapped)
   \<and> map (\<lambda>p. is_file remote_env p share_disk) (listing mapped)
       = [Inr True, Inr True, Inr True, Inr True]"
    using sample_dir(1-3) is_file_samples(1) remote_dir(1-3) is_file_samples(2) by (intro conjI)
  show ?thesis
    using l n(1-3) ne c f hyps sample_dir(6) locality_samples
    by simp
qed

text \<open>
  C8, as amended. The exit status is nonzero exactly when the folder does not exist or
  is not a directory (\<^verbatim>\<open>sys.exit(1)\<close> after the error line) or an exception leaves
  \<^verbatim>\<open>main\<close>. The exceptions that leave \<^verbatim>\<open>main\<close> are those of its own calls:
  \<^verbatim>\<open>exists\<close>, \<^verbatim>\<open>is_dir\<close>, the listing, \<^verbatim>\<open>is_file\<close> on a child whose extension is
  eligible, and, for a local folder with a file to process, the constructor of the
  pool. In all these cases no transform has run and the file system is as it was.
  When the enumeration completes with no eligible file the status is 0 and the notice
  is printed; otherwise \<^verbatim>\<open>main\<close> returns, status 0, whatever the transforms
  reported.
\<close>

theorem exit_status_cases:
  "(path_exists env d s = Inr False
      \<or> path_exists env d s = Inr True \<and> is_dir env d s = Inr False \<longrightarrow>
        main env d ms q s =
          \<lparr>status = Exit 1,
           trace = [Print (''Error: input folder not found: '' @ str_path (sep env) d)],
           final = s\<rparr>)
   \<and> (\<forall>e. path_exists env d s = Inl e
          \<or> path_exists env d s = Inr True \<and> is_dir env d s = Inl e
          \<or> path_exists env d s = Inr True \<and> is_dir env d s = Inr True
            \<and> iterdir env d s = Inl e
          \<or> path_exists env d s = Inr True \<and> is_dir env d s = Inr True
            \<and> (\<exists>children. iterdir env d s = Inr children
                  \<and> select_files env s children = Inl e) \<longrightarrow>
          main env d ms q s = \<lparr>status = Uncaught e, trace = [], final = s\<rparr>)
   \<and> (\<forall>children.
          path_exists env d s = Inr True \<and> is_dir env d s = Inr True
          \<and> iterdir env d s = Inr children \<longrightarrow>
          ((\<exists>e. select_files env s children = Inl e) \<longleftrightarrow>
             (\<exists>p\<in>set children. lower (suffix p) \<in> set exts \<and> (\<exists>e. is_file env p s = Inl e)))
          \<and> (\<forall>files. select_files env s children = Inr files \<longrightarrow>
                files = filter (eligible env s) children
                \<and> (files = [] \<longrightarrow>
                     main env d ms q s =
                       \<lparr>status = Exit 0,
                        trace = [Print (''No images found in: '' @ str_path (sep env) d)],
                        final = s\<rparr>)
                \<and> (files \<noteq> [] \<and> \<not> is_network_path env d \<longrightarrow>
                     (\<forall>e. ProcessPoolExecutor env (cores env) = Some e \<longrightarrow>
                        main env d ms q s =
                          \<lparr>status = Uncaught e,
                           trace = [Print (''Mode: Local drive. Processing in parallel with ''
                                           @ str_nat (cores env) @ '' cores in: ''
                                           @ str_path (sep env) d)],
                           final = s\<rparr>))
                \<and> (files \<noteq> []
                     \<and> (is_network_path env d \<or> ProcessPoolExecutor env (cores env) = None) \<longrightarrow>
                     status (main env d ms q s) = Returned
                     \<and> exit_status (status (main env d ms q s)) = 0
                     \<and> finished (trace (main env d ms q s)) \<noteq> [])))
   \<and> (exit_status (status (main env d ms q s)) \<noteq> 0 \<longleftrightarrow>
        path_exists env d s = Inr False
        \<or> path_exists env d s = Inr True \<and> is_dir env d s = Inr False
        \<or> (\<exists>e. status (main env d ms q s) = Uncaught e))
   \<and> ((\<exists>e. status (main env d ms q s) = Uncaught e) \<longleftrightarrow>
        (\<exists>e. path_exists env d s = Inl e)
        \<or> path_exists env d s = Inr True
          \<and> ((\<exists>e. is_dir env d s = Inl e)
             \<or> is_dir env d s = Inr True
               \<and> ((\<exists>e. iterdir env d s = Inl e)
                  \<or> (\<exists>children. iterdir env d s = Inr children
                        \<and> ((\<exists>p\<in>set children. lower (suffix p) \<in> set exts
                                \<and> (\<exists>e. is_file env p s = Inl e))
                           \<or> filter (eligible env s) children \<noteq> []
                             \<and> \<not> is_network_path env d
                             \<and> (\<exists>e. ProcessPoolExecutor env (cores env) = Some e))))))
   \<and> (exit_status (status (main env d ms q s)) \<noteq> 0 \<longrightarrow>
        finished (trace (main env d ms q s)) = [] \<and> final (main env d ms q s) = s)"
proof -
  have c1: "path_exists env d s = Inr False
      \<or> path_exists env d s = Inr True \<and> is_dir env d s = Inr False \<longrightarrow>
        main env d ms q s =
          \<lparr>status = Exit 1,
           trace = [Print (''Error: input folder not found: '' @ str_path (sep env) d)],
           final = s\<rparr>"
    using main_not_found [of env d s ms q] by (intro impI)
  have c2: "\<forall>e. path_exists env d s = Inl e
          \<or> path_exists env d s = Inr True \<and> is_dir env d s = Inl e
          \<or> path_exists env d s = Inr True \<and> is_dir env d s = Inr True
            \<and> iterdir env d s = Inl e
          \<or> path_exists env d s = Inr True \<and> is_dir env d s = Inr True
            \<and> (\<exists>children. iterdir env d s = Inr children
                  \<and> select_files env s children = Inl e) \<longrightarrow>
          main env d ms q s = \<lparr>status = Uncaught e, trace = [], final = s\<rparr>"
    by (blast intro: main_early)
  have c3: "((\<exists>e. select_files env s children = Inl e) \<longleftrightarrow>
             (\<exists>p\<in>set children. lower (suffix p) \<in> set exts \<and> (\<exists>e. is_file env p s = Inl e)))
          \<and> (\<forall>files. select_files env s children = Inr files \<longrightarrow>
                files = filter (eligible env s) children
                \<and> (files = [] \<longrightarrow>
                     main env d ms q s =
                       \<lparr>status = Exit 0,
                        trace = [Print (''No images found in: '' @ str_path (sep env) d)],
                        final = s\<rparr>)
                \<and> (files \<noteq> [] \<and> \<not> is_network_path env d \<longrightarrow>
                     (\<forall>e. ProcessPoolExecutor env (cores env) = Some e \<longrightarrow>
                        main env d ms q s =
                          \<lparr>status = Uncaught e,
                           trace = [Print (''Mode: Local drive. Processing in parallel with ''
                                           @ str_nat (cores env) @ '' cores in: ''
                                           @ str_path (sep env) d)],
                           final = s\<rparr>))
                \<and> (files \<noteq> []
                     \<and> (is_network_path env d \<or> ProcessPoolExecutor env (cores env) = None) \<longrightarrow>
                     status (main env d ms q s) = Returned
                     \<and> exit_status (status (main env d ms q s)) = 0
                     \<and> finished (trace (main env d ms q s)) \<noteq> []))"
    if listed: "path_exists env d s = Inr True \<and> is_dir env d s = Inr True
          \<and> iterdir env d s = Inr children" for children
  proof (intro conjI allI impI)
    show "(\<exists>e. select_files env s children = Inl e) \<longleftrightarrow>
             (\<exists>p\<in>set children. lower (suffix p) \<in> set exts \<and> (\<exists>e. is_file env p s = Inl e))"
      by (rule select_files_Inl)
  next
    fix files
    assume sel: "select_files env s children = Inr files"
    note m = main_listed [OF listed [THEN conjunct1] listed [THEN conjunct2, THEN conjunct1]
        listed [THEN conjunct2, THEN conjunct2] sel, of ms q]
    show "files = filter (eligible env s) children"
      using sel by (rule select_files_Inr)
    show "main env d ms q s =
                       \<lparr>status = Exit 0,
                        trace = [Print (''No images found in: '' @ str_path (sep env) d)],
                        final = s\<rparr>" if "files = []"
      using that by (simp add: m Let_def)
    show "main env d ms q s =
                          \<lparr>status = Uncaught e,
                           trace = [Print (''Mode: Local drive. Processing in parallel with ''
                                           @ str_nat (cores env) @ '' cores in: ''
                                           @ str_path (sep env) d)],
                           final = s\<rparr>"
      if "files \<noteq> [] \<and> \<not> is_network_path env d" and "ProcessPoolExecutor env (cores env) = Some e"
      for e
      using that by (simp add: m Let_def)
    assume run: "files \<noteq> []
                     \<and> (is_network_path env d \<or> ProcessPoolExecutor env (cores env) = None)"
    then show r: "status (main env d ms q s) = Returned"
      using listed sel by (auto simp: status_main)
    then show "exit_status (status (main env d ms q s)) = 0" by simp
    from run
    have "files = [] \<or> is_network_path env d \<or> ProcessPoolExecutor env (cores env) = None"
      by simp
    with listed [THEN conjunct1] listed [THEN conjunct2, THEN conjunct1]
      listed [THEN conjunct2, THEN conjunct2] sel
    have "mset (finished (trace (main env d ms q s))) = mset files"
      by (rule finished_main(1))
    then show "finished (trace (main env d ms q s)) \<noteq> []"
      using run by (metis mset_zero_iff)
  qed
  have c4: "exit_status (status (main env d ms q s)) \<noteq> 0 \<longleftrightarrow>
        path_exists env d s = Inr False
        \<or> path_exists env d s = Inr True \<and> is_dir env d s = Inr False
        \<or> (\<exists>e. status (main env d ms q s) = Uncaught e)"
    by (auto simp: status_main split: sum.splits option.splits if_splits)
  have c5: "(\<exists>e. status (main env d ms q s) = Uncaught e) \<longleftrightarrow>
        (\<exists>e. path_exists env d s = Inl e)
        \<or> path_exists env d s = Inr True
          \<and> ((\<exists>e. is_dir env d s = Inl e)
             \<or> is_dir env d s = Inr True
               \<and> ((\<exists>e. iterdir env d s = Inl e)
                  \<or> (\<exists>children. iterdir env d s = Inr children
                        \<and> ((\<exists>p\<in>set children. lower (suffix p) \<in> set exts
                                \<and> (\<exists>e. is_file env p s = Inl e))
                           \<or> filter (eligible env s) children \<noteq> []
                             \<and> \<not> is_network_path env d
                             \<and> (\<exists>e. ProcessPoolExecutor env (cores env) = Some e)))))"
  proof (cases "path_exists env d s")
    case (Inl e)
    then show ?thesis by (simp add: status_main)
  next
    case there: (Inr b)
    show ?thesis
    proof (cases "is_dir env d s")
      case (Inl e)
      with there show ?thesis by (cases b) (simp_all add: status_main)
    next
      case folder: (Inr c)
      show ?thesis
      proof (cases "iterdir env d s")
        case (Inl e)
        with there folder show ?thesis by (cases b; cases c) (simp_all add: status_main)
      next
        case children: (Inr children)
        show ?thesis
        proof (cases "select_files env s children")
          case (Inl e)
          then have "\<exists>p\<in>set children. lower (suffix p) \<in> set exts \<and> (\<exists>e. is_file env p s = Inl e)"
            using select_files_Inl [of env s children] by blast
          with there folder children Inl show ?thesis
            by (cases b; cases c) (simp_all add: status_main)
        next
          case (Inr fs)
          then have fs: "fs = filter (eligible env s) children" by (rule select_files_Inr)
          have "\<not> (\<exists>p\<in>set children. lower (suffix p) \<in> set exts \<and> (\<exists>e. is_file env p s = Inl e))"
            using select_files_Inl [of env s children] Inr by simp
          with there folder children Inr fs show ?thesis
            by (cases b; cases c) (auto simp: status_main split: option.splits)
        qed
      qed
    qed
  qed
  have c6: "exit_status (status (main env d ms q s)) \<noteq> 0 \<longrightarrow>
        finished (trace (main env d ms q s)) = [] \<and> final (main env d ms q s) = s"
    using finished_main_early [of env d ms q s] by (intro impI)
  from c3 have c3': "\<forall>children.
          path_exists env d s = Inr True \<and> is_dir env d s = Inr True
          \<and> iterdir env d s = Inr children \<longrightarrow>
          ((\<exists>e. select_files env s children = Inl e) \<longleftrightarrow>
             (\<exists>p\<in>set children. lower (suffix p) \<in> set exts \<and> (\<exists>e. is_file env p s = Inl e)))
          \<and> (\<forall>files. select_files env s children = Inr files \<longrightarrow>
                files = filter (eligible env s) children
                \<and> (files = [] \<longrightarrow>
                     main env d ms q s =
                       \<lparr>status = Exit 0,
                        trace = [Print (''No images found in: '' @ str_path (sep env) d)],
                        final = s\<rparr>)
                \<and> (files \<noteq> [] \<and> \<not> is_network_path env d \<longrightarrow>
                     (\<forall>e. ProcessPoolExecutor env (cores env) = Some e \<longrightarrow>
                        main env d ms q s =
                          \<lparr>status = Uncaught e,
                           trace = [Print (''Mode: Local drive. Processing in parallel with ''
                                           @ str_nat (cores env) @ '' cores in: ''
                                           @ str_path (sep env) d)],
                           final = s\<rparr>))
                \<and> (files \<noteq> []
                     \<and> (is_network_path env d \<or> ProcessPoolExecutor env (cores env) = None) \<longrightarrow>
                     status (main env d ms q s) = Returned
                     \<and> exit_status (status (main env d ms q s)) = 0
                     \<and> finished (trace (main env d ms q s)) \<noteq> []))"
    by (intro allI impI)
  show ?thesis
    using c1 c2 c3' c4 c5 c6 by (intro conjI)
qed

theorem exit_status_cases_witness:
  "path_exists sample_env mapped disk0 = Inr False
   \<and> main sample_env mapped 1280 65 disk0 =
       \<lparr>status = Exit 1,
        trace = [Print (''Error: input folder not found: '' @ str_path (sep sample_env) mapped)],
        final = disk0\<rparr>
   \<and> path_exists hidden_env photos disk0 = Inl (Exception ''[Errno 13] Permission denied'')
   \<and> main hidden_env photos 1280 65 disk0
       = \<lparr>status = Uncaught (Exception ''[Errno 13] Permission denied''), trace = [], final = disk0\<rparr>
   \<and> path_exists locked_env photos disk0 = Inr True \<and> is_dir locked_env photos disk0 = Inr True
   \<and> iterdir locked_env photos disk0 = Inl (Exception ''[WinError 5] Access is denied'')
   \<and> main locked_env photos 1280 65 disk0
       = \<lparr>status = Uncaught (Exception ''[WinError 5] Access is denied''), trace = [], final = disk0\<rparr>
   \<and> path_exists sealed_env photos disk0 = Inr True \<and> is_dir sealed_env photos disk0 = Inr True
   \<and> iterdir sealed_env photos disk0 = Inr (listing photos)
   \<and> select_files sealed_env disk0 (listing photos) = Inl (Exception ''[Errno 13] Permission denied'')
   \<and> main sealed_env photos 1280 65 disk0
       = \<lparr>status = Uncaught (Exception ''[Errno 13] Permission denied''), trace = [], final = disk0\<rparr>
   \<and> exit_status (status (main sealed_env photos 1280 65 disk0)) = 1
   \<and> path_exists sealed_text_env photos disk0 = Inr True
   \<and> is_dir sealed_text_env photos disk0 = Inr True
   \<and> iterdir sealed_text_env photos disk0 = Inr [joinpath photos ''notes.txt'']
   \<and> is_file sealed_text_env (joinpath photos ''notes.txt'') disk0
       = Inl (Exception ''[Errno 13] Permission denied'')
   \<and> select_files sealed_text_env disk0 [joinpath photos ''notes.txt''] = Inr []
   \<and> main sealed_text_env photos 1280 65 disk0
       = \<lparr>status = Exit 0,
          trace = [Print (''No images found in: '' @ str_path (sep sealed_text_env) photos)],
          final = disk0\<rparr>
   \<and> path_exists crowded_env photos disk0 = Inr True \<and> is_dir crowded_env photos disk0 = Inr True
   \<and> iterdir crowded_env photos disk0 = Inr (listing photos)
   \<and> select_files crowded_env disk0 (listing photos) = Inr (images photos)
   \<and> images photos \<noteq> []
   \<and> \<not> is_network_path crowded_env photos
   \<and> cores crowded_env = 64
   \<and> ProcessPoolExecutor crowded_env 64 = Some (Exception ''max_workers must be <= 61'')
   \<and> main crowded_env photos 1280 65 disk0
       = \<lparr>status = Uncaught (Exception ''max_workers must be <= 61''),
          trace = [Print (''Mode: Local drive. Processing in parallel with ''
                          @ str_nat 64 @ '' cores in: '' @ str_path (sep crowded_env) photos)],
          final = disk0\<rparr>
   \<and> exit_status (status (main crowded_env photos 1280 65 disk0)) = 1
   \<and> finished (trace (main crowded_env photos 1280 65 disk0)) = []
   \<and> path_exists sample_env photos disk0 = Inr True \<and> is_dir sample_env photos disk0 = Inr True
   \<and> iterdir sample_env photos disk0 = Inr (listing photos)
   \<and> select_files sample_env disk0 (listing photos) = Inr (images photos)
   \<and> ProcessPoolExecutor sample_env (cores sample_env) = None
   \<and> status (main sample_env photos 1280 65 disk0) = Returned
   \<and> exit_status (status (main sample_env photos 1280 65 disk0)) = 0
   \<and> finished (trace (main sample_env photos 1280 65 disk0)) \<noteq> []"
proof -
  note missing = exit_status_cases [where env = sample_env and d = mapped and s = disk0
      and ms = 1280 and q = 65]
  note hidden = exit_status_cases [where env = hidden_env and d = photos and s = disk0
      and ms = 1280 and q = 65]
  note locked = exit_status_cases [where env = locked_env and d = photos and s = disk0
      and ms = 1280 and q = 65]
  note sealed = exit_status_cases [where env = sealed_env and d = photos and s = disk0
      and ms = 1280 and q = 65]
  note empty = exit_status_cases [where env = sealed_text_env and d = photos and s = disk0
      and ms = 1280 and q = 65]
  note crowded = exit_status_cases [where env = crowded_env and d = photos and s = disk0
      and ms = 1280 and q = 65]
  note full = exit_status_cases [where env = sample_env and d = photos and s = disk0
      and ms = 1280 and q = 65]
  have ne: "images photos \<noteq> []" by (simp add: images_def)
  have a: "main sample_env mapped 1280 65 disk0 =
          \<lparr>status = Exit 1,
           trace = [Print (''Error: input folder not found: '' @ str_path (sep sample_env) mapped)],
           final = disk0\<rparr>"
    using missing [THEN conjunct1] mapped_missing by simp
  have h: "main hidden_env photos 1280 65 disk0
      = \<lparr>status = Uncaught (Exception ''[Errno 13] Permission denied''), trace = [], final = disk0\<rparr>"
    using hidden [THEN conjunct2, THEN conjunct1, THEN spec,
        of "Exception ''[Errno 13] Permission denied''"] hidden_dir
    by simp
  have b: "main locked_env photos 1280 65 disk0
      = \<lparr>status = Uncaught (Exception ''[WinError 5] Access is denied''), trace = [], final = disk0\<rparr>"
    using locked [THEN conjunct2, THEN conjunct1, THEN spec,
        of "Exception ''[WinError 5] Access is denied''"] locked_dir
    by simp
  have c: "main sealed_env photos 1280 65 disk0
      = \<lparr>status = Uncaught (Exception ''[Errno 13] Permission denied''), trace = [], final = disk0\<rparr>"
    using sealed [THEN conjunct2, THEN conjunct1, THEN spec,
        of "Exception ''[Errno 13] Permission denied''"] sealed_dir
    by simp
  have e: "main sealed_text_env photos 1280 65 disk0
       = \<lparr>status = Exit 0,
          trace = [Print (''No images found in: '' @ str_path (sep sealed_text_env) photos)],
          final = disk0\<rparr>"
    using empty [THEN conjunct2, THEN conjunct2, THEN conjunct1, THEN spec,
        of "[joinpath photos ''notes.txt'']"] sealed_text_dir
    by simp
  have f: "main crowded_env photos 1280 65 disk0
       = \<lparr>status = Uncaught (Exception ''max_workers must be <= 61''),
          trace = [Print (''Mode: Local drive. Processing in parallel with ''
                          @ str_nat 64 @ '' cores in: '' @ str_path (sep crowded_env) photos)],
          final = disk0\<rparr>"
    using crowded [THEN conjunct2, THEN conjunct2, THEN conjunct1, THEN spec,
        of "listing photos"] crowded_dir ne
    by simp
  have g: "status (main sample_env photos 1280 65 disk0) = Returned"
    "finished (trace (main sample_env photos 1280 65 disk0)) \<noteq> []"
    using full [THEN conjunct2, THEN conjunct2, THEN conjunct1, THEN spec,
        of "listing photos"] sample_dir(1-3) sample_files sample_dir(6) ne
    by simp_all
  have hyps: "path_exists locked_env photos disk0 = Inr True \<and> is_dir locked_env photos disk0 = Inr True
   \<and> iterdir locked_env photos disk0 = Inl (Exception ''[WinError 5] Access is denied'')
   \<and> path_exists sealed_env photos disk0 = Inr True \<and> is_dir sealed_env photos disk0 = Inr True
   \<and> iterdir sealed_env photos disk0 = Inr (listing photos)
   \<and> select_files sealed_env disk0 (listing photos) = Inl (Exception ''[Errno 13] Permission denied'')
   \<and> path_exists sealed_text_env photos disk0 = Inr True
   \<and> is_dir sealed_text_env photos disk0 = Inr True
   \<and> iterdir sealed_text_env photos disk0 = Inr [joinpath photos ''notes.txt'']
   \<and> is_file sealed_text_env (joinpath photos ''notes.txt'') disk0
       = Inl (Exception ''[Errno 13] Permission denied'')
   \<and> select_files sealed_text_env disk0 [joinpath photos ''notes.txt''] = Inr []
   \<and> path_exists crowded_env photos disk0 = Inr True \<and> is_dir crowded_env photos disk0 = Inr True
   \<and> iterdir crowded_env photos disk0 = Inr (listing photos)
   \<and> select_files crowded_env disk0 (listing photos) = Inr (images photos)
   \<and> \<not> is_network_path crowded_env photos
   \<and> cores crowded_env = 64
   \<and> ProcessPoolExecutor crowded_env 64 = Some (Exception ''max_workers must be <= 61'')
   \<and> path_exists sample_env photos disk0 = Inr True \<and> is_dir sample_env photos disk0 = Inr True
   \<and> iterdir sample_env photos disk0 = Inr (listing photos)
   \<and> select_files sample_env disk0 (listing photos) = Inr (images photos)
   \<and> ProcessPoolExecutor sample_env (cores sample_env) = None"
    using locked_dir sealed_dir sealed_text_dir crowded_dir sample_dir(1-3) sample_files sample_dir(6)
    by (intro conjI)
  show ?thesis
    using mapped_missing hidden_dir hyps ne
    by (simp add: a h b c e f g)
qed

text \<open>
  The claim as stated fails on a folder that exists and is a directory but whose
  listing raises: line 103 is outside any \<^verbatim>\<open>try\<close>.
\<close>

theorem unlisted_folder_exits_nonzero:
  "path_exists locked_env photos disk0 = Inr True \<and> is_dir locked_env photos disk0 = Inr True
   \<and> exit_status (status (main locked_env photos 1280 65 disk0)) = 1"
  by (simp add: main_def locked_env_def sample_env_def disk0_def)

text \<open>
  C10. The destination of a file is \<^verbatim>\<open>compressed/<stem>.jpg\<close>; the stem of
  \<^verbatim>\<open>base.ext\<close> is \<^verbatim>\<open>base\<close>, so two files with the same stem have the same
  destination. When both transforms succeed, the file system is the one the later
  \<^verbatim>\<open>save\<close> to that destination left, and both lines say \<^verbatim>\<open>[OK]\<close>.
\<close>

theorem same_stem_same_destination:
  "parent (output_for (joinpath d ''compressed'') p) = joinpath d ''compressed''
   \<and> name (output_for (joinpath d ''compressed'') p) = stem p @ ''.jpg''
   \<and> (base \<noteq> [] \<and> ext \<noteq> [] \<and> CHR ''.'' \<notin> set ext \<longrightarrow>
        stem (joinpath dir (base @ ''.'' @ ext)) = base)
   \<and> (stem pa = stem pb \<longrightarrow> output_for out_dir pa = output_for out_dir pb)
   \<and> (\<forall>s1 img ex icc img' s1' s2.
         process_image env pa out ms q s = (ok_line pa out, s1)
         \<and> load env pb s1 = Inr (img, ex, icc) \<and> fit env ms img = Inr img'
         \<and> mkdir env (parent out) s1 = (None, s1')
         \<and> save env img' out (save_args q ex icc) s1' = (None, s2) \<longrightarrow>
         collect env ms q [(pa, out), (pb, out)] s
           = ([Finished pa (ok_line pa out), Print (ok_line pa out),
               Finished pb (ok_line pb out), Print (ok_line pb out)], s2))
   \<and> snd (run_sequential env out_dir ms q ps s)
       = snd (collect env ms q (map (\<lambda>p. (p, output_for out_dir p)) ps) s)"
proof (intro conjI impI allI)
  show "parent (output_for (joinpath d ''compressed'') p) = joinpath d ''compressed''"
    by (simp add: output_for_def parent_joinpath)
  show "name (output_for (joinpath d ''compressed'') p) = stem p @ ''.jpg''"
    by (simp add: output_for_def name_joinpath)
  show "stem (joinpath dir (base @ ''.'' @ ext)) = base"
    if "base \<noteq> [] \<and> ext \<noteq> [] \<and> CHR ''.'' \<notin> set ext"
    using that stem_suffix_split(1) by simp
  show "output_for out_dir pa = output_for out_dir pb" if "stem pa = stem pb"
    using that by (simp add: output_for_def)
  show "snd (run_sequential env out_dir ms q ps s)
       = snd (collect env ms q (map (\<lambda>p. (p, output_for out_dir p)) ps) s)"
    by (rule run_sequential_collect)
next
  fix s1 img ex icc img' s1' s2
  assume a: "process_image env pa out ms q s = (ok_line pa out, s1)
         \<and> load env pb s1 = Inr (img, ex, icc) \<and> fit env ms img = Inr img'
         \<and> mkdir env (parent out) s1 = (None, s1')
         \<and> save env img' out (save_args q ex icc) s1' = (None, s2)"
  then have "process_image env pb out ms q s1 = (ok_line pb out, s2)"
    by (simp add: process_image_def store_def)
  with a show "collect env ms q [(pa, out), (pb, out)] s
           = ([Finished pa (ok_line pa out), Print (ok_line pa out),
               Finished pb (ok_line pb out), Print (ok_line pb out)], s2)"
    by (intro collect_two) simp_all
qed

theorem same_stem_same_destination_witness:
  "''holiday'' \<noteq> [] \<and> ''PNG'' \<noteq> [] \<and> CHR ''.'' \<notin> set ''PNG''
   \<and> stem (joinpath photos ''holiday.PNG'') = ''holiday''
   \<and> stem (joinpath photos ''holiday.jpg'') = stem (joinpath photos ''holiday.PNG'')
   \<and> joinpath photos ''holiday.jpg'' \<noteq> joinpath photos ''holiday.PNG''
   \<and> output_for compressed (joinpath photos ''holiday.jpg'') = joinpath compressed ''holiday.jpg''
   \<and> output_for compressed (joinpath photos ''holiday.PNG'') = joinpath compressed ''holiday.jpg''
   \<and> process_image sample_env (joinpath photos ''holiday.jpg'') (joinpath compressed ''holiday.jpg'') 1280 65 disk0
       = (ok_line (joinpath photos ''holiday.jpg'') (joinpath compressed ''holiday.jpg''),
          \<lparr>dirs = [compressed, photos],
           written = [stored (holiday\<lparr>img_size := (1280, 960)\<rparr>) (Some ''Exif-II*'') (Some ''sRGB'')]\<rparr>)
   \<and> collect sample_env 1280 65
        [(joinpath photos ''holiday.jpg'', joinpath compressed ''holiday.jpg''),
         (joinpath photos ''holiday.PNG'', joinpath compressed ''holiday.jpg'')] disk0
       = ([Finished (joinpath photos ''holiday.jpg'') ''[OK] holiday.jpg -> holiday.jpg'',
           Print ''[OK] holiday.jpg -> holiday.jpg'',
           Finished (joinpath photos ''holiday.PNG'') ''[OK] holiday.PNG -> holiday.jpg'',
           Print ''[OK] holiday.PNG -> holiday.jpg''],
          \<lparr>dirs = [compressed, photos], written = [stored (logo\<lparr>img_mode := ''RGB''\<rparr>) None None]\<rparr>)"
proof -
  let ?jpg = "joinpath photos ''holiday.jpg''"
  let ?png = "joinpath photos ''holiday.PNG''"
  let ?out = "joinpath compressed ''holiday.jpg''"
  let ?D1 = "\<lparr>dirs = [compressed, photos],
           written = [stored (holiday\<lparr>img_size := (1280, 960)\<rparr>) (Some ''Exif-II*'') (Some ''sRGB'')]\<rparr>"
  let ?D2 = "\<lparr>dirs = [compressed, photos], written = [stored (logo\<lparr>img_mode := ''RGB''\<rparr>) None None]\<rparr>"
  note w = same_stem_same_destination [where env = sample_env and pa = ?jpg and pb = ?png
      and out = ?out and s = disk0 and ms = 1280 and q = 65 and d = photos and p = ?png
      and base = "''holiday''" and ext = "''PNG''" and dir = photos and out_dir = compressed
      and ps = "[]"]
  have st: "stem ?png = ''holiday''"
    using w [THEN conjunct2, THEN conjunct2, THEN conjunct1] by simp
  have same: "output_for compressed ?jpg = output_for compressed ?png"
    using w [THEN conjunct2, THEN conjunct2, THEN conjunct2, THEN conjunct1]
    by (simp add: stem_samples)
  have o: "output_for compressed ?png = ?out"
    by (simp add: output_for_def st)
  have m: "mkdir sample_env (parent ?out) ?D1 = (None, ?D1)"
    by (simp add: sample_env_def sample_mkdir_def parent_joinpath)
  have sv: "save sample_env (logo\<lparr>img_mode := ''RGB''\<rparr>) ?out (save_args 65 [] (Some [])) ?D1 = (None, ?D2)"
    by (simp add: sample_env_def sample_save_def save_args_def stored_def)
  have "collect sample_env 1280 65 [(?jpg, ?out), (?png, ?out)] disk0
       = ([Finished ?jpg (ok_line ?jpg ?out), Print (ok_line ?jpg ?out),
           Finished ?png (ok_line ?png ?out), Print (ok_line ?png ?out)], ?D2)"
    using w [THEN conjunct2, THEN conjunct2, THEN conjunct2, THEN conjunct2, THEN conjunct1,
        THEN spec, THEN spec, THEN spec, THEN spec, THEN spec, THEN spec, THEN spec,
        of ?D1 "logo\<lparr>img_mode := ''RGB''\<rparr>" "[]" "Some []" "logo\<lparr>img_mode := ''RGB''\<rparr>" ?D1 ?D2]
      process_holiday load_logo [of ?D1] fit_logo [of sample_env] m sv
    by simp
  then have c: "collect sample_env 1280 65 [(?jpg, ?out), (?png, ?out)] disk0
       = ([Finished ?jpg ''[OK] holiday.jpg -> holiday.jpg'', Print ''[OK] holiday.jpg -> holiday.jpg'',
           Finished ?png ''[OK] holiday.PNG -> holiday.jpg'', Print ''[OK] holiday.PNG -> holiday.jpg''],
          ?D2)"
    by (simp add: ok_line_def name_joinpath)
  show ?thesis
    using st same o c process_holiday
    by (simp add: stem_samples joinpath_eq)
qed

end
